theory Spec2Isabelle
  imports Main "HOL-Library.Sublist"
begin

section \<open>The server manager script \<^verbatim>\<open>manage.py\<close>\<close>

text \<open>
  The script is a sequence of calls into the operating system (HTTP probe, process table,
  subprocesses, one file) interleaved with terminal output. The embedding threads a
  \<open>world\<close> through every function: the trace of everything the script did so far, and the
  contents of the one file it writes. What the operating system answers is a parameter, the
  \<open>environment\<close>: each query is answered as a function of the history of the script's
  earlier interactions, so that no behaviour of the outside world is excluded. Exceptions
  are values: a procedure returns \<open>exn option\<close> next to the world it leaves behind.
\<close>

subsection \<open>Python string operations\<close>

text \<open>
  \<^verbatim>\<open>str.lower()\<close>, on the ASCII letters. (Python lowers other code points too, but no
  code point outside ASCII is lowered to one of the letters of \<^verbatim>\<open>node\<close> or of a
  subcommand name, so the tests below do not depend on them.)
\<close>

definition lower_char :: "char \<Rightarrow> char" where
  "lower_char c =
     (case map_of (zip ''ABCDEFGHIJKLMNOPQRSTUVWXYZ'' ''abcdefghijklmnopqrstuvwxyz'') c of
        Some d \<Rightarrow> d
      | None \<Rightarrow> c)"

definition str_lower :: "string \<Rightarrow> string" where
  "str_lower s = map lower_char s"

text \<open>\<^verbatim>\<open>sub in s\<close> on strings: \<open>sub\<close> occurs in \<open>s\<close> as a contiguous piece.\<close>

fun str_in :: "string \<Rightarrow> string \<Rightarrow> bool" where
  "str_in sub [] = (sub = [])"
| "str_in sub (c # cs) = (prefix sub (c # cs) \<or> str_in sub cs)"

text \<open>\<^verbatim>\<open>s.count(sub)\<close>: the number of non-overlapping occurrences, scanning from the left.\<close>

function count_from :: "string \<Rightarrow> string \<Rightarrow> nat" where
  "count_from sub s =
     (if sub = [] \<or> s = [] then 0
      else if prefix sub s then Suc (count_from sub (drop (length sub) s))
      else count_from sub (tl s))"
  by pat_completeness auto
termination
  by (relation "measure (\<lambda>(sub, s). length s)") auto

definition str_count :: "string \<Rightarrow> string \<Rightarrow> nat" where
  "str_count s sub = (if sub = [] then Suc (length s) else count_from sub s)"

text \<open>\<^verbatim>\<open>s.strip()\<close>, on the ASCII white space.\<close>

definition is_space :: "char \<Rightarrow> bool" where
  "is_space c \<longleftrightarrow>
     c \<in> set [CHR '' '', CHR 0x09, CHR 0x0A, CHR 0x0B, CHR 0x0C, CHR 0x0D,
              CHR 0x1C, CHR 0x1D, CHR 0x1E, CHR 0x1F]"

definition str_strip :: "string \<Rightarrow> string" where
  "str_strip s = rev (dropWhile is_space (rev (dropWhile is_space s)))"

subsection \<open>Exceptions\<close>

datatype psutil_error = NoSuchProcess | AccessDenied

datatype exn =
    FileNotFoundError
  | CalledProcessError int
  | PsutilError psutil_error
  | OSError
  | UnicodeDecodeError

subsection \<open>What the operating system answers\<close>

text \<open>One entry of \<^verbatim>\<open>psutil.process_iter(['pid', 'name', 'cmdline'])\<close>: the \<^verbatim>\<open>info\<close>
  dictionary, whose \<^verbatim>\<open>name\<close> and \<^verbatim>\<open>cmdline\<close> may be \<^verbatim>\<open>None\<close>, or a process whose
  inspection raises because it has gone or denies access.\<close>

record proc_info =
  pid :: int
  pname :: "string option"
  cmdline :: "string list option"

datatype proc_read = Info proc_info | Raises psutil_error

text \<open>\<^verbatim>\<open>requests.get\<close>: a response with its status code and body, or an exception.\<close>

datatype net_error = ConnectionRefused | Timeout | OtherRequestError

datatype http_result = Response int string | RequestFailed net_error

text \<open>\<^verbatim>\<open>subprocess.run\<close>: the executable is missing, or it ran and left a return code and
  its standard output.\<close>

datatype run_result = NotFound | Completed int string

text \<open>The two forms of \<^verbatim>\<open>subprocess.Popen\<close> in \<^verbatim>\<open>start_server\<close>: a new console
  window on Windows, a background child elsewhere.\<close>

datatype launch = ShellStartCmd | NpmStartBackground

subsection \<open>Actions, messages and the trace\<close>

datatype action =
    HttpGet string nat
  | Sleep nat
  | RunNodeVersion
  | NodeModulesExists
  | RunNpmInstall
  | EnvExists
  | WriteEnv string
  | ReadEnv
  | ProcessIter
  | Terminate int
  | Popen launch

text \<open>One constructor for each \<^verbatim>\<open>print\<close> of the script (colours and glyphs left out).\<close>

datatype msg =
    MsgHeaderTop | MsgHeaderTitle | MsgHeaderBottom
  | MsgNodeInstalled string | MsgNodeMissing
  | MsgDepsInstalling | MsgDepsInstalledNow | MsgDepsPresent
  | MsgEnvNotFound | MsgCreatingEnv | MsgPleaseUpdateEnv | MsgClaudeKeyHint
  | MsgPerplexityKeyHint | MsgKeysNeedUpdate | MsgClaudeKeyPrefix
  | MsgPerplexityKeyPrefix | MsgEnvExists
  | MsgStarting | MsgAlreadyRunning | MsgAccessItAt | MsgWaiting | MsgStarted
  | MsgAccessApp | MsgRememberKeys | MsgFeatures | MsgFeature nat | MsgStartFailed
  | MsgStopping | MsgNoProcesses | MsgStoppedProcess int | MsgCouldNotStop int
  | MsgStopped | MsgMayStillRun
  | MsgRestarting | MsgBlank
  | MsgChecking | MsgServerRunning | MsgAccessAt | MsgProcessIds "int list"
  | MsgNotRunning | MsgStartItWith
  | MsgDoc | MsgCommands | MsgUsageStart | MsgUsageStop | MsgUsageRestart
  | MsgUsageStatus | MsgUsageHelp
  | MsgUnknownCommand string
  | MsgError exn

datatype event = Act action | Print msg

fun acts_of :: "event list \<Rightarrow> action list" where
  "acts_of [] = []"
| "acts_of (Act a # es) = a # acts_of es"
| "acts_of (Print m # es) = acts_of es"

record world =
  trace :: "event list"
  env_file :: "string option"

definition history :: "world \<Rightarrow> action list" where
  "history w = acts_of (trace w)"

definition emit :: "event \<Rightarrow> world \<Rightarrow> world" where
  "emit e w = w\<lparr>trace := trace w @ [e]\<rparr>"

definition emits :: "event list \<Rightarrow> world \<Rightarrow> world" where
  "emits es w = w\<lparr>trace := trace w @ es\<rparr>"

text \<open>The environment: \<^verbatim>\<open>sys.platform\<close>, and the answer to each query given the actions
  performed before it. The last three fields say whether an operation on \<^verbatim>\<open>.env\<close> raises:
  the existence test, the write of the new file (with what is left of the file then), and
  the read of the present file.\<close>

record environment =
  platform :: string
  http_get :: "action list \<Rightarrow> http_result"
  process_iter :: "action list \<Rightarrow> proc_read list"
  run_node_version :: "action list \<Rightarrow> run_result"
  node_modules_exists :: "action list \<Rightarrow> bool"
  run_npm_install :: "action list \<Rightarrow> run_result"
  popen :: "action list \<Rightarrow> launch \<Rightarrow> exn option"
  terminate :: "action list \<Rightarrow> int \<Rightarrow> psutil_error option"
  env_exists_raises :: "action list \<Rightarrow> exn option"
  env_write_raises :: "action list \<Rightarrow> (exn \<times> string option) option"
  env_read_raises :: "action list \<Rightarrow> exn option"

subsection \<open>\<^verbatim>\<open>print_header\<close>, \<^verbatim>\<open>check_node_installed\<close>, \<^verbatim>\<open>check_dependencies\<close>\<close>

definition print_header :: "world \<Rightarrow> world" where
  "print_header w = emits [Print MsgHeaderTop, Print MsgHeaderTitle, Print MsgHeaderBottom] w"

definition check_node_installed :: "environment \<Rightarrow> world \<Rightarrow> bool \<times> world" where
  "check_node_installed E w =
     (let w1 = emit (Act RunNodeVersion) w in
      case run_node_version E (history w) of
        Completed rc out \<Rightarrow>
          if rc = 0 then (True, emit (Print (MsgNodeInstalled (str_strip out))) w1)
          else (False, emit (Print MsgNodeMissing) w1)
      | NotFound \<Rightarrow> (False, emit (Print MsgNodeMissing) w1))"

text \<open>\<^verbatim>\<open>subprocess.run(['npm', 'install'], check=True)\<close> raises when \<^verbatim>\<open>npm\<close> is missing
  and when it exits with a code other than 0.\<close>

definition check_dependencies :: "environment \<Rightarrow> world \<Rightarrow> exn option \<times> world" where
  "check_dependencies E w =
     (let w1 = emit (Act NodeModulesExists) w in
      if \<not> node_modules_exists E (history w) then
        let w2 = emit (Print MsgDepsInstalling) w1;
            w3 = emit (Act RunNpmInstall) w2
        in case run_npm_install E (history w2) of
             NotFound \<Rightarrow> (Some FileNotFoundError, w3)
           | Completed rc out \<Rightarrow>
               if rc \<noteq> 0 then (Some (CalledProcessError rc), w3)
               else (None, emit (Print MsgDepsInstalledNow) w3)
      else (None, emit (Print MsgDepsPresent) w1))"

subsection \<open>\<^verbatim>\<open>check_env_file\<close>\<close>

definition template_content :: string where
  "template_content = concat (map (\<lambda>l. l @ [CHR 0x0A])
     [''# Get your API keys from:'',
      ''# Anthropic: https://console.anthropic.com/account/keys'',
      ''# Perplexity: https://www.perplexity.ai/settings/api'',
      '''',
      ''CLAUDE_API_KEY=YOUR_ANTHROPIC_API_KEY_HERE'',
      ''PERPLEXITY_API_KEY=YOUR_PERPLEXITY_API_KEY_HERE'',
      ''PORT=3000''])"

definition has_placeholder_keys :: "string \<Rightarrow> bool" where
  "has_placeholder_keys content \<longleftrightarrow>
     str_in ''YOUR_'' content \<or> str_in ''sk-proj-'' content \<or> str_count content ''pplx-'' = 1"

text \<open>None of the three file operations is inside a \<^verbatim>\<open>try\<close>: \<^verbatim>\<open>Path('.env').exists()\<close>
  may raise (no permission to look), opening or writing the new file may raise, leaving
  behind whatever the environment says (nothing, or a partial file), and opening or reading
  the present file may raise (no permission, or bytes that do not decode). Each exception
  leaves \<^verbatim>\<open>check_env_file\<close> at once.\<close>

definition check_env_file :: "environment \<Rightarrow> world \<Rightarrow> (exn + bool) \<times> world" where
  "check_env_file E w =
     (let w1 = emit (Act EnvExists) w in
      case env_exists_raises E (history w) of
        Some e \<Rightarrow> (Inl e, w1)
      | None \<Rightarrow>
          (case env_file w of
             None \<Rightarrow>
               let w2 = emits [Print MsgEnvNotFound, Print MsgCreatingEnv,
                               Act (WriteEnv template_content)] w1
               in (case env_write_raises E (history w1) of
                     Some (e, left) \<Rightarrow> (Inl e, w2\<lparr>env_file := left\<rparr>)
                   | None \<Rightarrow>
                       (Inr False,
                        emits [Print MsgPleaseUpdateEnv, Print MsgClaudeKeyHint,
                               Print MsgPerplexityKeyHint]
                          (w2\<lparr>env_file := Some template_content\<rparr>)))
           | Some content \<Rightarrow>
               let w2 = emit (Act ReadEnv) w1 in
               (case env_read_raises E (history w1) of
                  Some e \<Rightarrow> (Inl e, w2)
                | None \<Rightarrow>
                    if has_placeholder_keys content then
                      (Inr False,
                       emits [Print MsgKeysNeedUpdate, Print MsgClaudeKeyPrefix,
                              Print MsgPerplexityKeyPrefix] w2)
                    else (Inr True, emit (Print MsgEnvExists) w2))))"

subsection \<open>\<^verbatim>\<open>find_node_processes\<close>\<close>

text \<open>The body of the \<^verbatim>\<open>try\<close> for one entry: reading the entry may raise; otherwise the
  entry matches when its name is truthy and contains \<^verbatim>\<open>node\<close> once lowered, and its command
  line is truthy and has an argument containing \<^verbatim>\<open>server.js\<close>.\<close>

definition name_matches :: "string option \<Rightarrow> bool" where
  "name_matches n = (case n of None \<Rightarrow> False | Some s \<Rightarrow> s \<noteq> [] \<and> str_in ''node'' (str_lower s))"

definition cmdline_matches :: "string list option \<Rightarrow> bool" where
  "cmdline_matches c =
     (case c of None \<Rightarrow> False | Some args \<Rightarrow> args \<noteq> [] \<and> list_ex (str_in ''server.js'') args)"

fun try_match :: "proc_read \<Rightarrow> int list \<Rightarrow> exn + int list" where
  "try_match (Raises e) node_pids = Inl (PsutilError e)"
| "try_match (Info i) node_pids =
     Inr (if name_matches (pname i) then
            (if cmdline_matches (cmdline i) then node_pids @ [pid i] else node_pids)
          else node_pids)"

text \<open>\<^verbatim>\<open>except (psutil.NoSuchProcess, psutil.AccessDenied): pass\<close>\<close>

definition scan_catches :: "exn \<Rightarrow> bool" where
  "scan_catches e \<longleftrightarrow> e = PsutilError NoSuchProcess \<or> e = PsutilError AccessDenied"

fun scan_procs :: "proc_read list \<Rightarrow> int list \<Rightarrow> exn + int list" where
  "scan_procs [] node_pids = Inr node_pids"
| "scan_procs (p # ps) node_pids =
     (case try_match p node_pids of
        Inr node_pids' \<Rightarrow> scan_procs ps node_pids'
      | Inl e \<Rightarrow> if scan_catches e then scan_procs ps node_pids else Inl e)"

definition find_node_processes :: "environment \<Rightarrow> world \<Rightarrow> (exn + int list) \<times> world" where
  "find_node_processes E w =
     (scan_procs (process_iter E (history w)) [], emit (Act ProcessIter) w)"

subsection \<open>\<^verbatim>\<open>is_server_running\<close>\<close>

definition server_url :: string where
  "server_url = ''http://localhost:3000/api/load-files''"

text \<open>The bare \<^verbatim>\<open>except\<close> turns every exception into \<^verbatim>\<open>False\<close>.\<close>

definition is_server_running :: "environment \<Rightarrow> world \<Rightarrow> bool \<times> world" where
  "is_server_running E w =
     (case http_get E (history w) of
        Response status_code body \<Rightarrow> status_code = 200
      | RequestFailed err \<Rightarrow> False,
      emit (Act (HttpGet server_url 2)) w)"

subsection \<open>\<^verbatim>\<open>start_server\<close>\<close>

definition started_report :: "bool \<Rightarrow> event list" where
  "started_report has_valid_env =
     [Print MsgStarted, Print MsgAccessApp]
     @ (if \<not> has_valid_env then [Print MsgRememberKeys] else [])
     @ [Print MsgFeatures, Print (MsgFeature 1), Print (MsgFeature 2), Print (MsgFeature 3),
        Print (MsgFeature 4), Print (MsgFeature 5)]"

text \<open>\<^verbatim>\<open>for i in range(10)\<close>, with the number of rounds left as the argument; the code after
  the loop is the case of no round left.\<close>

fun wait_for_server :: "environment \<Rightarrow> bool \<Rightarrow> nat \<Rightarrow> world \<Rightarrow> world" where
  "wait_for_server E has_valid_env 0 w = emit (Print MsgStartFailed) w"
| "wait_for_server E has_valid_env (Suc n) w =
     (let w1 = emit (Act (Sleep 1)) w;
          (up, w2) = is_server_running E w1
      in if up then emits (started_report has_valid_env) w2
         else wait_for_server E has_valid_env n w2)"

definition launch_form :: "environment \<Rightarrow> launch" where
  "launch_form E = (if platform E = ''win32'' then ShellStartCmd else NpmStartBackground)"

definition start_server :: "environment \<Rightarrow> world \<Rightarrow> exn option \<times> world" where
  "start_server E w =
     (let w0 = emit (Print MsgStarting) w;
          (up, w1) = is_server_running E w0
      in if up then (None, emits [Print MsgAlreadyRunning, Print MsgAccessItAt] w1)
         else
           let (node_ok, w2) = check_node_installed E w1 in
           if \<not> node_ok then (None, w2)
           else
             case check_dependencies E w2 of
               (Some e, w3) \<Rightarrow> (Some e, w3)
             | (None, w3) \<Rightarrow>
                 (case check_env_file E w3 of
                    (Inl e, w4) \<Rightarrow> (Some e, w4)
                  | (Inr has_valid_env, w4) \<Rightarrow>
                      let w5 = emit (Act (Popen (launch_form E))) w4
                      in (case popen E (history w4) (launch_form E) of
                            Some e \<Rightarrow> (Some e, w5)
                          | None \<Rightarrow>
                              (None, wait_for_server E has_valid_env 10
                                       (emit (Print MsgWaiting) w5)))))"

subsection \<open>\<^verbatim>\<open>stop_server\<close>\<close>

text \<open>\<^verbatim>\<open>psutil.Process(pid).terminate()\<close> for each identifier, in order; the two psutil
  errors are caught and reported for that identifier.\<close>

fun terminate_all :: "environment \<Rightarrow> int list \<Rightarrow> world \<Rightarrow> world" where
  "terminate_all E [] w = w"
| "terminate_all E (p # ps) w =
     (let w1 = emit (Act (Terminate p)) w in
      terminate_all E ps
        (case terminate E (history w) p of
           None \<Rightarrow> emit (Print (MsgStoppedProcess p)) w1
         | Some err \<Rightarrow> emit (Print (MsgCouldNotStop p)) w1))"

definition stop_server :: "environment \<Rightarrow> world \<Rightarrow> exn option \<times> world" where
  "stop_server E w =
     (case find_node_processes E (emit (Print MsgStopping) w) of
        (Inl e, w1) \<Rightarrow> (Some e, w1)
      | (Inr pids, w1) \<Rightarrow>
          if pids = [] then (None, emit (Print MsgNoProcesses) w1)
          else
            let w2 = terminate_all E pids w1;
                w3 = emit (Act (Sleep 1)) w2;
                (up, w4) = is_server_running E w3
            in if \<not> up then (None, emit (Print MsgStopped) w4)
               else (None, emit (Print MsgMayStillRun) w4))"

subsection \<open>\<^verbatim>\<open>restart_server\<close>, \<^verbatim>\<open>check_status\<close>, \<^verbatim>\<open>show_help\<close>\<close>

definition restart_server :: "environment \<Rightarrow> world \<Rightarrow> exn option \<times> world" where
  "restart_server E w =
     (case stop_server E (emit (Print MsgRestarting) w) of
        (Some e, w1) \<Rightarrow> (Some e, w1)
      | (None, w1) \<Rightarrow> start_server E (emit (Print MsgBlank) (emit (Act (Sleep 2)) w1)))"

definition check_status :: "environment \<Rightarrow> world \<Rightarrow> exn option \<times> world" where
  "check_status E w =
     (let (up, w1) = is_server_running E (emit (Print MsgChecking) w) in
      if up then
        case find_node_processes E (emits [Print MsgServerRunning, Print MsgAccessAt] w1) of
          (Inl e, w2) \<Rightarrow> (Some e, w2)
        | (Inr pids, w2) \<Rightarrow>
            if pids \<noteq> [] then (None, emit (Print (MsgProcessIds pids)) w2) else (None, w2)
      else (None, emits [Print MsgNotRunning, Print MsgStartItWith] w1))"

definition show_help :: "environment \<Rightarrow> world \<Rightarrow> exn option \<times> world" where
  "show_help E w =
     (None, emits [Print MsgDoc, Print MsgCommands, Print MsgUsageStart, Print MsgUsageStop,
                   Print MsgUsageRestart, Print MsgUsageStatus, Print MsgUsageHelp] w)"

subsection \<open>\<^verbatim>\<open>main\<close> and the top level\<close>

text \<open>The dictionary \<^verbatim>\<open>commands\<close>, in the order it is written.\<close>

definition commands :: "(string \<times> (environment \<Rightarrow> world \<Rightarrow> exn option \<times> world)) list" where
  "commands =
     [(''start'', start_server),
      (''stop'', stop_server),
      (''restart'', restart_server),
      (''status'', check_status),
      (''help'', show_help)]"

definition main :: "environment \<Rightarrow> string list \<Rightarrow> world \<Rightarrow> exn option \<times> world" where
  "main E argv w =
     (let w0 = print_header w in
      if length argv < 2 then show_help E w0
      else
        let command = str_lower (argv ! 1) in
        case map_of commands command of
          Some f \<Rightarrow> f E w0
        | None \<Rightarrow> show_help E (emit (Print (MsgUnknownCommand command)) w0))"

text \<open>The \<^verbatim>\<open>__main__\<close> block: an exception of \<^verbatim>\<open>main\<close> is printed and the exit code is 1.\<close>

definition script :: "environment \<Rightarrow> string list \<Rightarrow> world \<Rightarrow> int \<times> world" where
  "script E argv w =
     (case main E argv w of
        (None, w1) \<Rightarrow> (0, w1)
      | (Some e, w1) \<Rightarrow> (1, emit (Print (MsgError e)) w1))"

subsection \<open>The process scan as the specification words it\<close>

text \<open>A name contains the runtime name, whatever the case of its letters, when one of its
  contiguous pieces is \<^verbatim>\<open>node\<close> once lowered; a command line references the entry point when
  one of its arguments contains \<^verbatim>\<open>server.js\<close>.\<close>

definition name_contains_runtime :: "string \<Rightarrow> bool" where
  "name_contains_runtime n \<longleftrightarrow> list_ex (\<lambda>t. str_lower t = ''node'') (sublists n)"

definition references_entry_point :: "string list \<Rightarrow> bool" where
  "references_entry_point args \<longleftrightarrow> list_ex (sublist ''server.js'') args"

definition is_server_process :: "proc_info \<Rightarrow> bool" where
  "is_server_process i \<longleftrightarrow>
     (case pname i of None \<Rightarrow> False | Some n \<Rightarrow> name_contains_runtime n) \<and>
     (case cmdline i of None \<Rightarrow> False | Some args \<Rightarrow> references_entry_point args)"

text \<open>The entries of the process table that can be read.\<close>

fun readable :: "proc_read list \<Rightarrow> proc_info list" where
  "readable [] = []"
| "readable (Info i # ps) = i # readable ps"
| "readable (Raises e # ps) = readable ps"

definition server_pids :: "proc_read list \<Rightarrow> int list" where
  "server_pids tbl = map pid (filter is_server_process (readable tbl))"

subsection \<open>Concrete worlds and environments\<close>

definition world0 :: world where
  "world0 = \<lparr>trace = [], env_file = None\<rparr>"

definition node_proc :: proc_info where
  "node_proc = \<lparr>pid = 4242, pname = Some ''Node.exe'', cmdline = Some [''node'', ''server.js'']\<rparr>"

definition other_proc :: proc_info where
  "other_proc = \<lparr>pid = 17, pname = Some ''python3'', cmdline = Some [''python3'', ''manage.py'']\<rparr>"

definition table0 :: "proc_read list" where
  "table0 = [Info other_proc, Raises AccessDenied, Info node_proc, Raises NoSuchProcess]"

text \<open>A server that answers 200 throughout.\<close>

definition env_live :: environment where
  "env_live =
     \<lparr>platform = ''linux'',
      http_get = (\<lambda>h. Response 200 ''[]''),
      process_iter = (\<lambda>h. table0),
      run_node_version = (\<lambda>h. Completed 0 ''v18.0.0''),
      node_modules_exists = (\<lambda>h. True),
      run_npm_install = (\<lambda>h. Completed 0 []),
      popen = (\<lambda>h l. None),
      terminate = (\<lambda>h p. None),
      env_exists_raises = (\<lambda>h. None),
      env_write_raises = (\<lambda>h. None),
      env_read_raises = (\<lambda>h. None)\<rparr>"

text \<open>No server answers and Node.js is not installed, while a matching process exists.\<close>

definition env_down :: environment where
  "env_down =
     \<lparr>platform = ''linux'',
      http_get = (\<lambda>h. RequestFailed ConnectionRefused),
      process_iter = (\<lambda>h. table0),
      run_node_version = (\<lambda>h. NotFound),
      node_modules_exists = (\<lambda>h. True),
      run_npm_install = (\<lambda>h. Completed 0 []),
      popen = (\<lambda>h l. None),
      terminate = (\<lambda>h p. None),
      env_exists_raises = (\<lambda>h. None),
      env_write_raises = (\<lambda>h. None),
      env_read_raises = (\<lambda>h. None)\<rparr>"

text \<open>The server answers 200 from the third second after its launch on, and stops answering
  once it has been sent a termination signal.\<close>

definition env_boot :: environment where
  "env_boot =
     \<lparr>platform = ''linux'',
      http_get = (\<lambda>h. if 3 \<le> length (filter (\<lambda>a. a = Sleep 1) (dropWhile (\<lambda>a. a \<noteq> Popen NpmStartBackground) h))
                       then Response 200 ''[]'' else RequestFailed ConnectionRefused),
      process_iter = (\<lambda>h. table0),
      run_node_version = (\<lambda>h. Completed 0 ''v18.0.0''),
      node_modules_exists = (\<lambda>h. True),
      run_npm_install = (\<lambda>h. Completed 0 []),
      popen = (\<lambda>h l. None),
      terminate = (\<lambda>h p. None),
      env_exists_raises = (\<lambda>h. None),
      env_write_raises = (\<lambda>h. None),
      env_read_raises = (\<lambda>h. None)\<rparr>"


subsection \<open>Notions the claims are stated with\<close>

text \<open>Launches and writes of \<^verbatim>\<open>.env\<close> among the actions.\<close>

fun is_popen :: "action \<Rightarrow> bool" where
  "is_popen (Popen l) = True"
| "is_popen a = False"

fun is_write :: "action \<Rightarrow> bool" where
  "is_write (WriteEnv c) = True"
| "is_write a = False"

text \<open>One round of the liveness poll, and the answer of round \<open>j\<close> (counted from 0) of a poll
  that starts after the actions \<open>h\<close>.\<close>

definition poll_round :: "event list" where
  "poll_round = [Act (Sleep 1), Act (HttpGet server_url 2)]"

definition up_at :: "environment \<Rightarrow> action list \<Rightarrow> nat \<Rightarrow> bool" where
  "up_at E h j \<longleftrightarrow>
     (case http_get E (h @ concat (replicate j [Sleep 1, HttpGet server_url 2]) @ [Sleep 1]) of
        Response status_code body \<Rightarrow> status_code = 200
      | RequestFailed err \<Rightarrow> False)"

text \<open>The restart as the specification words it: \<^verbatim>\<open>stop()\<close>, a pause of 2 seconds,
  \<^verbatim>\<open>start()\<close>.\<close>

definition restart_spec :: "environment \<Rightarrow> world \<Rightarrow> exn option \<times> world" where
  "restart_spec E w =
     (case stop_server E w of
        (Some e, w1) \<Rightarrow> (Some e, w1)
      | (None, w1) \<Rightarrow> start_server E (emit (Act (Sleep 2)) w1))"

text \<open>Two worlds agree when the environment cannot tell them apart: the same actions were
  performed and \<^verbatim>\<open>.env\<close> holds the same. Two runs take the same step when they append the same
  events and leave the same \<^verbatim>\<open>.env\<close>, and, where \<^verbatim>\<open>.env\<close> was present, the step neither writes
  it nor changes it.\<close>

definition agree :: "world \<Rightarrow> world \<Rightarrow> bool" where
  "agree w v \<longleftrightarrow> history w = history v \<and> env_file w = env_file v"

definition same_step :: "world \<Rightarrow> world \<Rightarrow> world \<Rightarrow> world \<Rightarrow> bool" where
  "same_step w w' v v' \<longleftrightarrow>
     (\<exists>es. trace w' = trace w @ es \<and> trace v' = trace v @ es \<and>
           (env_file w \<noteq> None \<longrightarrow> filter is_write (acts_of es) = [])) \<and>
     env_file w' = env_file v' \<and>
     (env_file w \<noteq> None \<longrightarrow> env_file w' = env_file w)"

definition same_run :: "world \<Rightarrow> world \<Rightarrow> 'a \<times> world \<Rightarrow> 'a \<times> world \<Rightarrow> bool" where
  "same_run w v p q \<longleftrightarrow> fst p = fst q \<and> same_step w (snd p) v (snd q)"

section \<open>Facts about the trace and the scan\<close>

lemma acts_of_append: "acts_of (xs @ ys) = acts_of xs @ acts_of ys"
  by (induction xs rule: acts_of.induct) simp_all

lemma trace_emit: "trace (emit e w) = trace w @ [e]"
  by (simp add: emit_def)

lemma env_file_emit: "env_file (emit e w) = env_file w"
  by (simp add: emit_def)

lemma trace_emits: "trace (emits es w) = trace w @ es"
  by (simp add: emits_def)

lemma env_file_emits: "env_file (emits es w) = env_file w"
  by (simp add: emits_def)

lemma history_emit_Act: "history (emit (Act a) w) = history w @ [a]"
  by (simp add: history_def emit_def acts_of_append)

lemma history_emit_Print: "history (emit (Print m) w) = history w"
  by (simp add: history_def emit_def acts_of_append)

lemma history_emits: "history (emits es w) = history w @ acts_of es"
  by (simp add: history_def emits_def acts_of_append)

lemma emits_emit: "emits es (emit e w) = emits (e # es) w"
  by (simp add: emits_def emit_def)

lemma emits_emits: "emits es (emits ds w) = emits (ds @ es) w"
  by (simp add: emits_def)

lemma emit_as_emits: "emit e w = emits [e] w"
  by (simp add: emits_def emit_def)

lemma str_in_sublist: "str_in sub s = sublist sub s"
  by (induction s) (auto simp: sublist_Cons_right)

lemma sublist_map_iff: "sublist xs (map f ys) \<longleftrightarrow> (\<exists>zs. sublist zs ys \<and> map f zs = xs)"
  by (metis map_mono_sublist sublist_map_rightE)

lemma name_contains_runtime_iff:
  "name_contains_runtime s \<longleftrightarrow> sublist ''node'' (str_lower s)"
proof -
  have "name_contains_runtime s \<longleftrightarrow> (\<exists>t. sublist t s \<and> map lower_char t = ''node'')"
    unfolding name_contains_runtime_def list_ex_iff str_lower_def Bex_def
    by (simp only: in_set_sublists)
  also have "\<dots> \<longleftrightarrow> sublist ''node'' (map lower_char s)"
    by (simp only: sublist_map_iff)
  finally show ?thesis
    by (simp only: str_lower_def)
qed

lemma name_matches_spec:
  "name_matches n = (case n of None \<Rightarrow> False | Some s \<Rightarrow> name_contains_runtime s)"
proof (cases n)
  case None
  then show ?thesis by (simp add: name_matches_def)
next
  case (Some s)
  have "sublist ''node'' (str_lower s) \<Longrightarrow> s \<noteq> []"
    by (auto simp: str_lower_def)
  with Some show ?thesis
    by (auto simp: name_matches_def name_contains_runtime_iff str_in_sublist)
qed

lemma cmdline_matches_spec:
  "cmdline_matches c = (case c of None \<Rightarrow> False | Some args \<Rightarrow> references_entry_point args)"
  by (auto simp: cmdline_matches_def references_entry_point_def str_in_sublist list_ex_iff
      split: option.splits)

lemma try_match_Info:
  "try_match (Info i) acc = Inr (if is_server_process i then acc @ [pid i] else acc)"
  by (simp add: is_server_process_def name_matches_spec cmdline_matches_spec)

lemma scan_procs_acc: "scan_procs tbl acc = Inr (acc @ server_pids tbl)"
proof (induction tbl arbitrary: acc)
  case Nil
  show ?case by (simp add: server_pids_def)
next
  case (Cons p ps)
  show ?case
  proof (cases p)
    case (Info i)
    then show ?thesis
      using Cons.IH by (simp add: try_match_Info server_pids_def del: try_match.simps)
  next
    case (Raises e)
    then show ?thesis
      using Cons.IH by (cases e) (simp_all add: scan_catches_def server_pids_def)
  qed
qed

lemma server_pids_readable: "server_pids (map Info (readable tbl)) = server_pids tbl"
  by (induction tbl rule: readable.induct) (simp_all add: server_pids_def)

lemma is_server_running_fst:
  "fst (is_server_running E w) \<longleftrightarrow> (\<exists>body. http_get E (history w) = Response 200 body)"
  by (cases "http_get E (history w)") (simp_all add: is_server_running_def)

lemma is_server_running_snd:
  "snd (is_server_running E w) = emit (Act (HttpGet server_url 2)) w"
  by (simp add: is_server_running_def)

lemma find_node_processes_eq:
  "find_node_processes E w = (Inr (server_pids (process_iter E (history w))), emit (Act ProcessIter) w)"
  by (simp add: find_node_processes_def scan_procs_acc)

lemma is_server_running_eq:
  "is_server_running E w = (fst (is_server_running E w), emit (Act (HttpGet server_url 2)) w)"
  by (simp add: prod_eq_iff is_server_running_snd)

lemma emits_Nil: "emits [] w = w"
  by (simp add: emits_def)

lemma terminate_all_emits:
  "\<exists>es. terminate_all E pids w = emits es w \<and> acts_of es = map Terminate pids"
proof (induction pids arbitrary: w)
  case Nil
  have "terminate_all E [] w = emits [] w \<and> acts_of [] = map Terminate []"
    by (simp add: emits_def)
  then show ?case by blast
next
  case (Cons p ps)
  let ?m = "case terminate E (history w) p of
              None \<Rightarrow> MsgStoppedProcess p | Some err \<Rightarrow> MsgCouldNotStop p"
  let ?w2 = "emits [Act (Terminate p), Print ?m] w"
  have step: "terminate_all E (p # ps) w = terminate_all E ps ?w2"
    by (simp add: emit_as_emits emits_emits split: option.splits)
  obtain es where es: "terminate_all E ps ?w2 = emits es ?w2" "acts_of es = map Terminate ps"
    using Cons.IH [of ?w2] by blast
  have "terminate_all E (p # ps) w = emits ([Act (Terminate p), Print ?m] @ es) w"
    unfolding step es(1) by (simp add: emits_emits)
  moreover have "acts_of ([Act (Terminate p), Print ?m] @ es) = map Terminate (p # ps)"
    by (simp add: es(2))
  ultimately show ?case by blast
qed

lemma start_server_running_eq:
  assumes "fst (is_server_running E w)"
  shows "start_server E w =
           (None, emits [Print MsgStarting, Act (HttpGet server_url 2),
                         Print MsgAlreadyRunning, Print MsgAccessItAt] w)"
proof -
  let ?w0 = "emit (Print MsgStarting) w"
  have "fst (is_server_running E ?w0)"
    using assms by (simp add: is_server_running_fst history_emit_Print)
  then have run: "is_server_running E ?w0 = (True, emit (Act (HttpGet server_url 2)) ?w0)"
    by (simp add: prod_eq_iff is_server_running_snd)
  have "start_server E w =
      (None, emits [Print MsgAlreadyRunning, Print MsgAccessItAt] (emit (Act (HttpGet server_url 2)) ?w0))"
    by (simp add: start_server_def run)
  then show ?thesis
    by (simp add: emits_emit)
qed


lemma agree_history: "agree w v \<Longrightarrow> history w = history v"
  by (simp add: agree_def)

lemma agree_env_file: "agree w v \<Longrightarrow> env_file w = env_file v"
  by (simp add: agree_def)

lemma same_step_refl: "agree w v \<Longrightarrow> same_step w w v v"
  by (simp add: same_step_def agree_def)

lemma same_step_emits:
  "agree w v \<Longrightarrow> filter is_write (acts_of es) = [] \<Longrightarrow> same_step w (emits es w) v (emits es v)"
  by (simp add: same_step_def agree_def emits_def)

lemma same_step_emit_Print: "agree w v \<Longrightarrow> same_step w (emit (Print m) w) v (emit (Print m) v)"
  by (simp add: same_step_def agree_def emit_def)

lemma same_step_emit_Act:
  "agree w v \<Longrightarrow> \<not> is_write a \<Longrightarrow> same_step w (emit (Act a) w) v (emit (Act a) v)"
  by (simp add: same_step_def agree_def emit_def)

lemma same_step_agree:
  assumes "agree w v" and "same_step w w' v v'"
  shows "agree w' v'"
proof -
  obtain es where "trace w' = trace w @ es" "trace v' = trace v @ es" "env_file w' = env_file v'"
    using assms(2) by (auto simp: same_step_def)
  with assms(1) show ?thesis
    by (simp add: agree_def history_def acts_of_append)
qed

lemma same_step_trans:
  assumes "same_step w w' v v'" and "same_step w' w'' v' v''"
  shows "same_step w w'' v v''"
proof -
  obtain es where es: "trace w' = trace w @ es" "trace v' = trace v @ es"
      "env_file w \<noteq> None \<longrightarrow> filter is_write (acts_of es) = []"
    and e1: "env_file w' = env_file v'" "env_file w \<noteq> None \<longrightarrow> env_file w' = env_file w"
    using assms(1) by (auto simp: same_step_def)
  obtain ds where ds: "trace w'' = trace w' @ ds" "trace v'' = trace v' @ ds"
      "env_file w' \<noteq> None \<longrightarrow> filter is_write (acts_of ds) = []"
    and e2: "env_file w'' = env_file v''" "env_file w' \<noteq> None \<longrightarrow> env_file w'' = env_file w'"
    using assms(2) by (auto simp: same_step_def)
  have "trace w'' = trace w @ (es @ ds)" "trace v'' = trace v @ (es @ ds)"
    by (simp_all add: es ds)
  moreover have "env_file w \<noteq> None \<longrightarrow> filter is_write (acts_of (es @ ds)) = []"
    using es(3) ds(3) e1(2) by (simp add: acts_of_append)
  moreover have "env_file w \<noteq> None \<longrightarrow> env_file w'' = env_file w"
    using e1(2) e2(2) by simp
  ultimately show ?thesis
    unfolding same_step_def using e2(1) by blast
qed


lemma is_server_running_run:
  assumes "agree w v"
  shows "same_run w v (is_server_running E w) (is_server_running E v)"
  using assms
  by (simp add: same_run_def is_server_running_fst is_server_running_snd agree_history
      same_step_emit_Act)

lemma check_node_installed_emits:
  "\<exists>m. check_node_installed E w =
         (\<exists>out. run_node_version E (history w) = Completed 0 out,
          emits [Act RunNodeVersion, Print m] w) \<and>
       m = (case run_node_version E (history w) of
              NotFound \<Rightarrow> MsgNodeMissing
            | Completed rc out \<Rightarrow> if rc = 0 then MsgNodeInstalled (str_strip out) else MsgNodeMissing)"
  by (cases "run_node_version E (history w)")
    (simp_all add: check_node_installed_def Let_def emit_as_emits emits_emits)

lemma check_node_installed_run:
  assumes "agree w v"
  shows "same_run w v (check_node_installed E w) (check_node_installed E v)"
proof -
  obtain m where m: "check_node_installed E w =
         (\<exists>out. run_node_version E (history w) = Completed 0 out,
          emits [Act RunNodeVersion, Print m] w)"
     "m = (case run_node_version E (history w) of
              NotFound \<Rightarrow> MsgNodeMissing
            | Completed rc out \<Rightarrow> if rc = 0 then MsgNodeInstalled (str_strip out) else MsgNodeMissing)"
    using check_node_installed_emits by blast
  obtain n where n: "check_node_installed E v =
         (\<exists>out. run_node_version E (history v) = Completed 0 out,
          emits [Act RunNodeVersion, Print n] v)"
     "n = (case run_node_version E (history v) of
              NotFound \<Rightarrow> MsgNodeMissing
            | Completed rc out \<Rightarrow> if rc = 0 then MsgNodeInstalled (str_strip out) else MsgNodeMissing)"
    using check_node_installed_emits by blast
  have "m = n"
    by (simp only: m(2) n(2) agree_history [OF assms])
  then show ?thesis
    using assms by (simp add: m(1) n(1) same_run_def agree_history [OF assms] same_step_emits)
qed

lemma check_dependencies_run:
  assumes "agree w v"
  shows "same_run w v (check_dependencies E w) (check_dependencies E v)"
proof -
  have "\<exists>r es. check_dependencies E w = (r, emits es w) \<and> check_dependencies E v = (r, emits es v) \<and>
          filter is_write (acts_of es) = []"
  proof (cases "node_modules_exists E (history v)")
    case True
    then have "check_dependencies E w = (None, emits [Act NodeModulesExists, Print MsgDepsPresent] w)"
      "check_dependencies E v = (None, emits [Act NodeModulesExists, Print MsgDepsPresent] v)"
      by (simp_all add: check_dependencies_def Let_def agree_history [OF assms] emit_as_emits emits_emits)
    then show ?thesis by force
  next
    case False
    let ?pre = "[Act NodeModulesExists, Print MsgDepsInstalling, Act RunNpmInstall]"
    have "\<exists>r ms. check_dependencies E w = (r, emits (?pre @ map Print ms) w) \<and>
                 check_dependencies E v = (r, emits (?pre @ map Print ms) v)"
    proof (cases "run_npm_install E (history v @ [NodeModulesExists])")
      case NotFound
      with False have "check_dependencies E w = (Some FileNotFoundError, emits (?pre @ map Print []) w)"
        "check_dependencies E v = (Some FileNotFoundError, emits (?pre @ map Print []) v)"
        by (simp_all add: check_dependencies_def Let_def agree_history [OF assms] emit_as_emits emits_emits
            history_emits)
      then show ?thesis by blast
    next
      case (Completed rc out)
      show ?thesis
      proof (cases "rc = 0")
        case True
        with False Completed have "check_dependencies E w = (None, emits (?pre @ map Print [MsgDepsInstalledNow]) w)"
          "check_dependencies E v = (None, emits (?pre @ map Print [MsgDepsInstalledNow]) v)"
          by (simp_all add: check_dependencies_def Let_def agree_history [OF assms] emit_as_emits emits_emits
              history_emits)
        then show ?thesis by blast
      next
        case nz: False
        with False Completed have "check_dependencies E w = (Some (CalledProcessError rc), emits (?pre @ map Print []) w)"
          "check_dependencies E v = (Some (CalledProcessError rc), emits (?pre @ map Print []) v)"
          by (simp_all add: check_dependencies_def Let_def agree_history [OF assms] emit_as_emits emits_emits
              history_emits)
        then show ?thesis by blast
      qed
    qed
    then obtain r ms where "check_dependencies E w = (r, emits (?pre @ map Print ms) w)"
      "check_dependencies E v = (r, emits (?pre @ map Print ms) v)" by blast
    moreover have "filter is_write (acts_of (?pre @ map Print ms)) = []"
      by (induction ms) simp_all
    ultimately show ?thesis by blast
  qed
  then show ?thesis
    using assms by (auto simp: same_run_def intro: same_step_emits)
qed

lemma check_env_file_run:
  assumes "agree w v"
  shows "same_run w v (check_env_file E w) (check_env_file E v)"
proof -
  have h: "history w = history v" and f: "env_file w = env_file v"
    using assms by (simp_all add: agree_def)
  have h1: "history (w\<lparr>trace := trace w @ [Act EnvExists]\<rparr>) =
            history (v\<lparr>trace := trace v @ [Act EnvExists]\<rparr>)"
    using h by (simp add: history_def acts_of_append)
  show ?thesis
  proof (cases "env_exists_raises E (history v)")
    case (Some e)
    then show ?thesis
      using assms by (simp add: check_env_file_def Let_def h same_run_def same_step_emit_Act)
  next
    case None
    show ?thesis
    proof (cases "env_file v")
      case absent: None
      show ?thesis
        using None absent
        by (auto simp: check_env_file_def Let_def h h1 f same_run_def same_step_def
            emit_def emits_def split: option.splits)
    next
      case (Some content)
      show ?thesis
        using None Some
        by (auto simp: check_env_file_def Let_def h h1 f same_run_def same_step_def
            emit_def emits_def split: option.splits)
    qed
  qed
qed

lemma same_run_fst: "same_run w v p q \<Longrightarrow> fst p = fst q"
  by (simp add: same_run_def)

lemma same_run_snd: "same_run w v p q \<Longrightarrow> same_step w (snd p) v (snd q)"
  by (simp add: same_run_def)

lemma same_run_agree: "agree w v \<Longrightarrow> same_run w v p q \<Longrightarrow> agree (snd p) (snd q)"
  by (auto simp: same_run_def intro: same_step_agree)

lemma terminate_all_step:
  "agree w v \<Longrightarrow> same_step w (terminate_all E pids w) v (terminate_all E pids v)"
proof (induction pids arbitrary: w v)
  case Nil
  then show ?case by (simp add: same_step_refl)
next
  case (Cons p ps)
  let ?m = "case terminate E (history w) p of
              None \<Rightarrow> MsgStoppedProcess p | Some err \<Rightarrow> MsgCouldNotStop p"
  let ?w2 = "emits [Act (Terminate p), Print ?m] w"
  let ?v2 = "emits [Act (Terminate p), Print ?m] v"
  have hw: "terminate_all E (p # ps) w = terminate_all E ps ?w2"
    by (simp add: emit_as_emits emits_emits split: option.splits)
  have hv: "terminate_all E (p # ps) v = terminate_all E ps ?v2"
    by (simp add: agree_history [OF Cons.prems, symmetric] emit_as_emits emits_emits
        split: option.splits)
  have st: "same_step w ?w2 v ?v2"
    using Cons.prems by (simp add: same_step_emits)
  then have "agree ?w2 ?v2"
    using Cons.prems same_step_agree by blast
  then have "same_step ?w2 (terminate_all E ps ?w2) ?v2 (terminate_all E ps ?v2)"
    by (rule Cons.IH)
  with st show ?case
    unfolding hw hv by (rule same_step_trans)
qed

lemma started_report_no_write: "filter is_write (acts_of (started_report hv)) = []"
  by (simp add: started_report_def)

lemma wait_for_server_step:
  "agree w v \<Longrightarrow> same_step w (wait_for_server E hv n w) v (wait_for_server E hv n v)"
proof (induction n arbitrary: w v)
  case 0
  then show ?case by (simp add: same_step_emit_Print)
next
  case (Suc n)
  let ?w1 = "emit (Act (Sleep 1)) w" and ?v1 = "emit (Act (Sleep 1)) v"
  let ?w2 = "emit (Act (HttpGet server_url 2)) ?w1" and ?v2 = "emit (Act (HttpGet server_url 2)) ?v1"
  let ?up = "fst (is_server_running E ?w1)"
  have s1: "same_step w ?w1 v ?v1"
    using Suc.prems by (simp add: same_step_emit_Act)
  then have a1: "agree ?w1 ?v1"
    using Suc.prems same_step_agree by blast
  have s2: "same_step ?w1 ?w2 ?v1 ?v2"
    using a1 by (simp add: same_step_emit_Act)
  have a2: "agree ?w2 ?v2"
    using a1 s2 same_step_agree by blast
  have s12: "same_step w ?w2 v ?v2"
    using s1 s2 by (rule same_step_trans)
  have upv: "fst (is_server_running E ?v1) = ?up"
    by (simp only: is_server_running_fst agree_history [OF a1])
  have ew: "wait_for_server E hv (Suc n) w =
      (if ?up then emits (started_report hv) ?w2 else wait_for_server E hv n ?w2)"
    by (simp add: Let_def split_beta is_server_running_snd del: One_nat_def)
  have ev: "wait_for_server E hv (Suc n) v =
      (if ?up then emits (started_report hv) ?v2 else wait_for_server E hv n ?v2)"
    by (simp add: Let_def split_beta is_server_running_snd upv del: One_nat_def)
  show ?case
  proof (cases ?up)
    case True
    have "same_step ?w2 (emits (started_report hv) ?w2) ?v2 (emits (started_report hv) ?v2)"
      using a2 by (simp add: same_step_emits started_report_no_write)
    with s12 have "same_step w (emits (started_report hv) ?w2) v (emits (started_report hv) ?v2)"
      by (rule same_step_trans)
    with True show ?thesis by (simp only: ew ev if_True)
  next
    case False
    have "same_step ?w2 (wait_for_server E hv n ?w2) ?v2 (wait_for_server E hv n ?v2)"
      using a2 by (rule Suc.IH)
    with s12 have "same_step w (wait_for_server E hv n ?w2) v (wait_for_server E hv n ?v2)"
      by (rule same_step_trans)
    with False show ?thesis by (simp only: ew ev if_False)
  qed
qed


lemma start_server_unfold:
  "start_server E w =
     (if fst (is_server_running E (emit (Print MsgStarting) w))
      then (None, emits [Print MsgAlreadyRunning, Print MsgAccessItAt]
             (snd (is_server_running E (emit (Print MsgStarting) w))))
      else if \<not> fst (check_node_installed E (snd (is_server_running E (emit (Print MsgStarting) w))))
      then (None, (snd (check_node_installed E (snd (is_server_running E (emit (Print MsgStarting) w))))))
      else
        case fst (check_dependencies E (snd (check_node_installed E (snd (is_server_running E (emit (Print MsgStarting) w)))))) of
          Some e \<Rightarrow>
            (Some e, (snd (check_dependencies E (snd (check_node_installed E (snd (is_server_running E (emit (Print MsgStarting) w))))))))
        | None \<Rightarrow>
            (case fst (check_env_file E (snd (check_dependencies E (snd (check_node_installed E (snd (is_server_running E (emit (Print MsgStarting) w)))))))) of
               Inl e \<Rightarrow>
                 (Some e, (snd (check_env_file E (snd (check_dependencies E (snd (check_node_installed E (snd (is_server_running E (emit (Print MsgStarting) w))))))))))
             | Inr hv \<Rightarrow>
                 (case popen E (history (snd (check_env_file E (snd (check_dependencies E (snd (check_node_installed E (snd (is_server_running E (emit (Print MsgStarting) w)))))))))) (launch_form E) of
                    Some e \<Rightarrow>
                      (Some e, (emit (Act (Popen (launch_form E))) (snd (check_env_file E (snd (check_dependencies E (snd (check_node_installed E (snd (is_server_running E (emit (Print MsgStarting) w)))))))))))
                  | None \<Rightarrow>
                      (None, wait_for_server E hv 10
                         (emit (Print MsgWaiting) (emit (Act (Popen (launch_form E))) (snd (check_env_file E (snd (check_dependencies E (snd (check_node_installed E (snd (is_server_running E (emit (Print MsgStarting) w)))))))))))))))"
  by (simp add: start_server_def Let_def split_beta split: option.splits sum.splits)

lemma start_server_run:
  assumes ag: "agree w v"
  shows "same_run w v (start_server E w) (start_server E v)"
proof -
  let ?l = "launch_form E"
  let ?w0 = "emit (Print MsgStarting) w" and ?v0 = "emit (Print MsgStarting) v"
  let ?w1 = "snd (is_server_running E ?w0)" and ?v1 = "snd (is_server_running E ?v0)"
  let ?w2 = "snd (check_node_installed E ?w1)" and ?v2 = "snd (check_node_installed E ?v1)"
  let ?w3 = "snd (check_dependencies E ?w2)" and ?v3 = "snd (check_dependencies E ?v2)"
  let ?w4 = "snd (check_env_file E ?w3)" and ?v4 = "snd (check_env_file E ?v3)"
  let ?w5 = "emit (Act (Popen ?l)) ?w4" and ?v5 = "emit (Act (Popen ?l)) ?v4"
  let ?w6 = "emit (Print MsgWaiting) ?w5" and ?v6 = "emit (Print MsgWaiting) ?v5"
  have s0: "same_step w ?w0 v ?v0"
    using ag by (rule same_step_emit_Print)
  have a0: "agree ?w0 ?v0"
    using ag s0 by (rule same_step_agree)
  have r1: "same_run ?w0 ?v0 (is_server_running E ?w0) (is_server_running E ?v0)"
    using a0 by (rule is_server_running_run)
  have s1: "same_step w ?w1 v ?v1"
    using s0 same_run_snd [OF r1] by (rule same_step_trans)
  have a1: "agree ?w1 ?v1"
    using ag s1 by (rule same_step_agree)
  have r2: "same_run ?w1 ?v1 (check_node_installed E ?w1) (check_node_installed E ?v1)"
    using a1 by (rule check_node_installed_run)
  have s2: "same_step w ?w2 v ?v2"
    using s1 same_run_snd [OF r2] by (rule same_step_trans)
  have a2: "agree ?w2 ?v2"
    using ag s2 by (rule same_step_agree)
  have r3: "same_run ?w2 ?v2 (check_dependencies E ?w2) (check_dependencies E ?v2)"
    using a2 by (rule check_dependencies_run)
  have s3: "same_step w ?w3 v ?v3"
    using s2 same_run_snd [OF r3] by (rule same_step_trans)
  have a3: "agree ?w3 ?v3"
    using ag s3 by (rule same_step_agree)
  have r4: "same_run ?w3 ?v3 (check_env_file E ?w3) (check_env_file E ?v3)"
    using a3 by (rule check_env_file_run)
  have s4: "same_step w ?w4 v ?v4"
    using s3 same_run_snd [OF r4] by (rule same_step_trans)
  have a4: "agree ?w4 ?v4"
    using ag s4 by (rule same_step_agree)
  have s5: "same_step w ?w5 v ?v5"
    using s4 same_step_emit_Act [OF a4, of "Popen ?l"] by (simp add: same_step_trans)
  have a5: "agree ?w5 ?v5"
    using ag s5 by (rule same_step_agree)
  have s6: "same_step w ?w6 v ?v6"
    using s5 same_step_emit_Print [OF a5] by (rule same_step_trans)
  have a6: "agree ?w6 ?v6"
    using ag s6 by (rule same_step_agree)
  have s7: "same_step w (wait_for_server E hv 10 ?w6) v (wait_for_server E hv 10 ?v6)" for hv
    using s6 wait_for_server_step [OF a6] by (rule same_step_trans)
  have sr: "same_step w (emits [Print MsgAlreadyRunning, Print MsgAccessItAt] ?w1)
                      v (emits [Print MsgAlreadyRunning, Print MsgAccessItAt] ?v1)"
    using s1 same_step_emits [OF a1, of "[Print MsgAlreadyRunning, Print MsgAccessItAt]"]
    by (simp add: same_step_trans)
  note eqs = same_run_fst [OF r1, symmetric] same_run_fst [OF r2, symmetric]
    same_run_fst [OF r3, symmetric] same_run_fst [OF r4, symmetric]
    agree_history [OF a4, symmetric]
  have ev: "start_server E v =
     (if fst (is_server_running E ?w0)
      then (None, emits [Print MsgAlreadyRunning, Print MsgAccessItAt] ?v1)
      else if \<not> fst (check_node_installed E ?w1) then (None, ?v2)
      else
        case fst (check_dependencies E ?w2) of
          Some e \<Rightarrow> (Some e, ?v3)
        | None \<Rightarrow>
            (case fst (check_env_file E ?w3) of
               Inl e \<Rightarrow> (Some e, ?v4)
             | Inr hv \<Rightarrow>
                 (case popen E (history ?w4) ?l of
                    Some e \<Rightarrow> (Some e, ?v5)
                  | None \<Rightarrow> (None, wait_for_server E hv 10 ?v6))))"
    unfolding start_server_unfold [of E v] by (simp only: eqs)
  show ?thesis
    unfolding ev start_server_unfold [of E w]
    using sr s2 s3 s4 s5 s7
    by (simp add: same_run_def split: option.splits sum.splits)
qed

lemma stop_server_unfold:
  "stop_server E w =
     (None,
      if server_pids (process_iter E (history w)) = []
      then emit (Print MsgNoProcesses) (emit (Act ProcessIter) (emit (Print MsgStopping) w))
      else emit (Print (if fst (is_server_running E (emit (Act (Sleep 1))
                    (terminate_all E (server_pids (process_iter E (history w)))
                       (emit (Act ProcessIter) (emit (Print MsgStopping) w)))))
                        then MsgMayStillRun else MsgStopped))
             (snd (is_server_running E (emit (Act (Sleep 1))
                    (terminate_all E (server_pids (process_iter E (history w)))
                       (emit (Act ProcessIter) (emit (Print MsgStopping) w)))))))"
  by (simp add: stop_server_def find_node_processes_eq history_emit_Print Let_def split_beta
      del: One_nat_def)

lemma stop_server_run:
  assumes ag: "agree w v"
  shows "same_run w v (stop_server E w) (stop_server E v)"
proof -
  let ?pids = "server_pids (process_iter E (history w))"
  let ?w0 = "emit (Print MsgStopping) w" and ?v0 = "emit (Print MsgStopping) v"
  let ?w1 = "emit (Act ProcessIter) ?w0" and ?v1 = "emit (Act ProcessIter) ?v0"
  let ?w2 = "terminate_all E ?pids ?w1" and ?v2 = "terminate_all E ?pids ?v1"
  let ?w3 = "emit (Act (Sleep 1)) ?w2" and ?v3 = "emit (Act (Sleep 1)) ?v2"
  let ?w4 = "snd (is_server_running E ?w3)" and ?v4 = "snd (is_server_running E ?v3)"
  have s0: "same_step w ?w0 v ?v0"
    using ag by (rule same_step_emit_Print)
  have a0: "agree ?w0 ?v0"
    using ag s0 by (rule same_step_agree)
  have s1: "same_step w ?w1 v ?v1"
    using s0 same_step_emit_Act [OF a0, of ProcessIter] by (simp add: same_step_trans)
  have a1: "agree ?w1 ?v1"
    using ag s1 by (rule same_step_agree)
  have s2: "same_step w ?w2 v ?v2"
    using s1 terminate_all_step [OF a1] by (rule same_step_trans)
  have a2: "agree ?w2 ?v2"
    using ag s2 by (rule same_step_agree)
  have s3: "same_step w ?w3 v ?v3"
    using s2 same_step_emit_Act [OF a2, of "Sleep 1"] by (simp add: same_step_trans del: One_nat_def)
  have a3: "agree ?w3 ?v3"
    using ag s3 by (rule same_step_agree)
  have r4: "same_run ?w3 ?v3 (is_server_running E ?w3) (is_server_running E ?v3)"
    using a3 by (rule is_server_running_run)
  have s4: "same_step w ?w4 v ?v4"
    using s3 same_run_snd [OF r4] by (rule same_step_trans)
  have a4: "agree ?w4 ?v4"
    using ag s4 by (rule same_step_agree)
  have sn: "same_step w (emit (Print MsgNoProcesses) ?w1) v (emit (Print MsgNoProcesses) ?v1)"
    using s1 same_step_emit_Print [OF a1] by (rule same_step_trans)
  have sm: "same_step w (emit (Print m) ?w4) v (emit (Print m) ?v4)" for m
    using s4 same_step_emit_Print [OF a4] by (rule same_step_trans)
  note eqs = agree_history [OF ag, symmetric] same_run_fst [OF r4, symmetric]
  have ev: "stop_server E v =
     (None,
      if ?pids = [] then emit (Print MsgNoProcesses) ?v1
      else emit (Print (if fst (is_server_running E ?w3) then MsgMayStillRun else MsgStopped)) ?v4)"
    unfolding stop_server_unfold [of E v] by (simp only: eqs)
  show ?thesis
    unfolding ev stop_server_unfold [of E w]
    using sn sm by (simp add: same_run_def del: One_nat_def)
qed




lemma stop_server_fst: "fst (stop_server E w) = None"
  by (simp add: stop_server_unfold)

lemma restart_server_unfold:
  "restart_server E w =
     start_server E (emit (Print MsgBlank) (emit (Act (Sleep 2))
        (snd (stop_server E (emit (Print MsgRestarting) w)))))"
  using stop_server_fst [of E "emit (Print MsgRestarting) w"]
  by (simp add: restart_server_def split_beta)

lemma restart_spec_unfold:
  "restart_spec E w = start_server E (emit (Act (Sleep 2)) (snd (stop_server E w)))"
  using stop_server_fst [of E w]
  by (simp add: restart_spec_def split_beta)




lemma stop_server_history:
  assumes "fst (find_node_processes E w) = Inr pids" and "pids \<noteq> []"
  shows "history (snd (stop_server E w)) =
           history w @ ProcessIter # map Terminate pids @ [Sleep 1, HttpGet server_url 2]"
proof -
  have pids: "server_pids (process_iter E (history w)) = pids"
    using assms(1) by (simp add: find_node_processes_eq)
  obtain es where es:
    "terminate_all E pids (emit (Act ProcessIter) (emit (Print MsgStopping) w)) =
       emits es (emit (Act ProcessIter) (emit (Print MsgStopping) w))"
    "acts_of es = map Terminate pids"
    using terminate_all_emits by blast
  show ?thesis
    using assms(2)
    by (simp add: stop_server_unfold pids es is_server_running_snd history_emit_Act
        history_emit_Print history_emits del: One_nat_def)
qed

lemma up_at_0: "up_at E (history w) 0 = fst (is_server_running E (emit (Act (Sleep 1)) w))"
  by (simp add: up_at_def is_server_running_def history_emit_Act del: One_nat_def)

lemma up_at_Suc:
  "up_at E (h @ [Sleep 1, HttpGet server_url 2]) j = up_at E h (Suc j)"
  by (simp add: up_at_def del: One_nat_def)

lemma wait_for_server_Suc:
  "wait_for_server E hv (Suc n) w =
     (if up_at E (history w) 0 then emits (poll_round @ started_report hv) w
      else wait_for_server E hv n (emits poll_round w))"
  by (simp add: up_at_0 Let_def split_beta is_server_running_snd poll_round_def
      emit_as_emits emits_emits del: One_nat_def)

lemma history_poll_round: "history (emits poll_round w) = history w @ [Sleep 1, HttpGet server_url 2]"
  by (simp add: history_emits poll_round_def del: One_nat_def)

lemma wait_for_server_failed:
  "(\<forall>j<n. \<not> up_at E (history w) j) \<Longrightarrow>
   wait_for_server E hv n w = emits (concat (replicate n poll_round) @ [Print MsgStartFailed]) w"
proof (induction n arbitrary: w)
  case 0
  then show ?case by (simp add: emit_as_emits)
next
  case (Suc n)
  have "\<forall>j<n. \<not> up_at E (history (emits poll_round w)) j"
    using Suc.prems by (simp add: history_poll_round up_at_Suc del: One_nat_def)
  then have "wait_for_server E hv n (emits poll_round w) =
      emits (concat (replicate n poll_round) @ [Print MsgStartFailed]) (emits poll_round w)"
    by (rule Suc.IH)
  moreover have "\<not> up_at E (history w) 0"
    using Suc.prems by simp
  ultimately show ?case
    by (simp add: wait_for_server_Suc emits_emits del: wait_for_server.simps)
qed

lemma wait_for_server_started:
  "k < n \<Longrightarrow> up_at E (history w) k \<Longrightarrow> (\<forall>j<k. \<not> up_at E (history w) j) \<Longrightarrow>
   wait_for_server E hv n w = emits (concat (replicate (Suc k) poll_round) @ started_report hv) w"
proof (induction k arbitrary: n w)
  case 0
  then obtain m where "n = Suc m" by (cases n) simp_all
  with "0.prems" show ?case
    by (simp add: wait_for_server_Suc del: wait_for_server.simps)
next
  case (Suc k)
  then obtain m where n: "n = Suc m" "k < m" by (cases n) simp_all
  have first: "\<not> up_at E (history w) 0"
    using Suc.prems(3) by simp
  have "up_at E (history (emits poll_round w)) k"
    using Suc.prems(2) by (simp add: history_poll_round up_at_Suc del: One_nat_def)
  moreover have "\<forall>j<k. \<not> up_at E (history (emits poll_round w)) j"
    using Suc.prems(3) by (simp add: history_poll_round up_at_Suc del: One_nat_def)
  ultimately have "wait_for_server E hv m (emits poll_round w) =
      emits (concat (replicate (Suc k) poll_round) @ started_report hv) (emits poll_round w)"
    using n(2) Suc.IH by blast
  with first show ?case
    by (simp add: n(1) wait_for_server_Suc emits_emits del: wait_for_server.simps)
qed

lemma check_node_installed_popen:
  "filter is_popen (history (snd (check_node_installed E w))) = filter is_popen (history w)"
  by (cases "run_node_version E (history w)")
    (simp_all add: check_node_installed_def Let_def history_emit_Act history_emit_Print)

lemma check_dependencies_popen:
  "filter is_popen (history (snd (check_dependencies E w))) = filter is_popen (history w)"
  by (cases "run_npm_install E (history w @ [NodeModulesExists])")
    (simp_all add: check_dependencies_def Let_def history_emit_Act history_emit_Print)

lemma check_env_file_popen:
  "filter is_popen (history (snd (check_env_file E w))) = filter is_popen (history w)"
  by (simp add: check_env_file_def Let_def history_def emit_def emits_def acts_of_append
      split: option.splits prod.splits)

lemma wait_for_server_popen:
  "filter is_popen (history (wait_for_server E hv n w)) = filter is_popen (history w)"
proof (induction n arbitrary: w)
  case 0
  show ?case by (simp add: history_emit_Print)
next
  case (Suc n)
  show ?case
    by (simp add: wait_for_server_Suc Suc.IH history_emits poll_round_def started_report_def
        del: wait_for_server.simps)
qed

lemma server_pids_table0: "server_pids table0 = [4242]"
  by code_simp

lemma stop_server_env_live:
  "stop_server env_live w =
     (None, emits [Print MsgStopping, Act ProcessIter, Act (Terminate 4242),
                   Print (MsgStoppedProcess 4242), Act (Sleep 1), Act (HttpGet server_url 2),
                   Print MsgMayStillRun] w)"
proof -
  have pids: "server_pids (process_iter env_live h) = [4242]" for h
    by (simp add: env_live_def server_pids_table0)
  have signalled: "terminate env_live h p = None" for h p
    by (simp add: env_live_def)
  have live: "fst (is_server_running env_live v)" for v
    by (simp add: is_server_running_def env_live_def)
  show ?thesis
    by (simp add: stop_server_unfold pids signalled live is_server_running_snd emit_as_emits
        emits_emits del: One_nat_def)
qed

lemma start_server_env_live:
  "start_server env_live w =
     (None, emits [Print MsgStarting, Act (HttpGet server_url 2),
                   Print MsgAlreadyRunning, Print MsgAccessItAt] w)"
proof -
  have "fst (is_server_running env_live w)"
    by (simp add: is_server_running_def env_live_def)
  then show ?thesis
    by (rule start_server_running_eq)
qed

section \<open>The claims\<close>

subsection \<open>Process discovery\<close>

text \<open>
  C5. Whatever the process table holds, \<^verbatim>\<open>find_node_processes\<close> returns the identifiers of
  exactly the readable processes whose name contains the runtime name \<^verbatim>\<open>node\<close>, letter case
  ignored, and whose command line has an argument containing \<^verbatim>\<open>server.js\<close>. They come in the
  order of the table, which fixes them as a set whatever order the table has, and the list
  is empty when no process matches.
\<close>

theorem find_node_processes_spec:
  "find_node_processes E w =
     (Inr (server_pids (process_iter E (history w))), emit (Act ProcessIter) w) \<and>
   (\<not> list_ex is_server_process (readable (process_iter E (history w))) \<longrightarrow>
      fst (find_node_processes E w) = Inr [])"
  by (auto simp: find_node_processes_def scan_procs_acc server_pids_def list_ex_iff filter_empty_conv)

theorem find_node_processes_spec_witness:
  "find_node_processes env_live world0 = (Inr [4242], emit (Act ProcessIter) world0)"
  using find_node_processes_spec [of env_live world0]
  by (simp add: env_live_def server_pids_table0)

text \<open>
  C10. The scan never fails: for every process table \<^verbatim>\<open>find_node_processes\<close> returns a list,
  and the entries whose inspection raises \<^verbatim>\<open>NoSuchProcess\<close> or \<^verbatim>\<open>AccessDenied\<close> are skipped
  without a trace: the result is the one of the table without them.
\<close>

theorem find_node_processes_total:
  "\<exists>pids. find_node_processes E w = (Inr pids, emit (Act ProcessIter) w) \<and>
          scan_procs (map Info (readable (process_iter E (history w)))) [] = Inr pids"
  by (simp add: find_node_processes_def scan_procs_acc server_pids_readable)

theorem find_node_processes_total_witness:
  "fst (find_node_processes env_live world0) = scan_procs [Info other_proc, Info node_proc] []"
proof -
  obtain pids where
    "find_node_processes env_live world0 = (Inr pids, emit (Act ProcessIter) world0)" and
    "scan_procs (map Info (readable (process_iter env_live (history world0)))) [] = Inr pids"
    using find_node_processes_total [of env_live world0] by blast
  then show ?thesis
    by (simp add: env_live_def table0_def)
qed

subsection \<open>The liveness probe\<close>

text \<open>
  C4. \<^verbatim>\<open>is_server_running\<close> performs one GET of \<^verbatim>\<open>http://localhost:3000/api/load-files\<close> with
  a timeout of 2 seconds and returns true exactly when the answer has status code 200,
  whatever its body; when the request fails (connection refused, timeout, any other
  error) it returns false, and it has no way to raise.
\<close>

theorem is_server_running_iff_200:
  "is_server_running E w =
     ((\<exists>body. http_get E (history w) = Response 200 body),
      emit (Act (HttpGet ''http://localhost:3000/api/load-files'' 2)) w) \<and>
   (\<forall>err. http_get E (history w) = RequestFailed err \<longrightarrow> \<not> fst (is_server_running E w))"
  by (cases "http_get E (history w)") (simp_all add: is_server_running_def server_url_def)

theorem is_server_running_iff_200_witness:
  "fst (is_server_running env_live world0) \<and> \<not> fst (is_server_running env_down world0)"
  using is_server_running_iff_200 [of env_live world0] is_server_running_iff_200 [of env_down world0]
  by (simp add: env_live_def env_down_def)

subsection \<open>Start\<close>

text \<open>
  C1. In a state where \<^verbatim>\<open>is_server_running\<close> returns true, \<^verbatim>\<open>start_server\<close> only prints its
  banner, probes once, and prints the notice that the server is already running: no
  process is launched, no prerequisite is checked, no poll is run, and \<^verbatim>\<open>.env\<close> is left as
  it was.
\<close>

theorem start_server_already_running:
  assumes "fst (is_server_running E w)"
  shows "start_server E w =
           (None, emits [Print MsgStarting, Act (HttpGet server_url 2),
                         Print MsgAlreadyRunning, Print MsgAccessItAt] w) \<and>
         history (snd (start_server E w)) = history w @ [HttpGet server_url 2] \<and>
         env_file (snd (start_server E w)) = env_file w"
  using start_server_running_eq [OF assms]
  by (simp add: history_emits env_file_emits)

theorem start_server_already_running_witness:
  "fst (is_server_running env_live world0) \<and>
   start_server env_live world0 =
     (None, \<lparr>trace = [Print MsgStarting, Act (HttpGet server_url 2),
                       Print MsgAlreadyRunning, Print MsgAccessItAt],
             env_file = None\<rparr>)"
proof -
  have live: "fst (is_server_running env_live world0)"
    by (simp add: is_server_running_def env_live_def)
  show ?thesis
    using live start_server_already_running [OF live]
    by (simp add: emits_def world0_def)
qed


subsection \<open>Stop\<close>

text \<open>
  C3. \<^verbatim>\<open>stop_server\<close> never raises and leaves \<^verbatim>\<open>.env\<close> alone. When \<^verbatim>\<open>find_node_processes\<close>
  returns the empty list it reports that there is nothing to stop and performs no action
  but the scan. Otherwise its actions are, in this order: the scan, one termination request
  for each returned identifier in the order returned, a sleep of 1 second, and one single
  liveness probe; its last message is the success report when that probe answers false and
  the still-running warning when it answers true.
\<close>

theorem stop_server_spec:
  assumes "fst (find_node_processes E w) = Inr pids"
  shows "fst (stop_server E w) = None \<and>
         env_file (snd (stop_server E w)) = env_file w \<and>
         (pids = [] \<longrightarrow>
            snd (stop_server E w) = emits [Print MsgStopping, Act ProcessIter, Print MsgNoProcesses] w) \<and>
         (pids \<noteq> [] \<longrightarrow>
            history (snd (stop_server E w)) =
              history w @ ProcessIter # map Terminate pids @ [Sleep 1, HttpGet server_url 2] \<and>
            last (trace (snd (stop_server E w))) =
              Print (if \<exists>body. http_get E (history w @ ProcessIter # map Terminate pids @ [Sleep 1])
                                  = Response 200 body
                     then MsgMayStillRun else MsgStopped))"
proof -
  let ?w0 = "emit (Print MsgStopping) w"
  let ?w1 = "emit (Act ProcessIter) ?w0"
  have pids: "server_pids (process_iter E (history w)) = pids"
    using assms by (simp add: find_node_processes_eq)
  have found: "find_node_processes E ?w0 = (Inr pids, ?w1)"
    by (simp add: find_node_processes_eq history_emit_Print pids)
  show ?thesis
  proof (cases "pids = []")
    case True
    then have "stop_server E w = (None, emit (Print MsgNoProcesses) ?w1)"
      by (simp add: stop_server_def found)
    then have "stop_server E w = (None, emits [Print MsgStopping, Act ProcessIter, Print MsgNoProcesses] w)"
      by (simp add: emit_as_emits emits_emits)
    with True show ?thesis
      by (simp add: env_file_emits)
  next
    case False
    obtain es where es: "terminate_all E pids ?w1 = emits es ?w1" "acts_of es = map Terminate pids"
      using terminate_all_emits by blast
    let ?w3 = "emit (Act (Sleep 1)) (emits es ?w1)"
    let ?w4 = "emit (Act (HttpGet server_url 2)) ?w3"
    let ?up = "\<exists>body. http_get E (history w @ ProcessIter # map Terminate pids @ [Sleep 1])
                        = Response 200 body"
    have h3: "history ?w3 = history w @ ProcessIter # map Terminate pids @ [Sleep 1]"
      by (simp add: history_emit_Act history_emit_Print history_emits es(2))
    have run: "is_server_running E ?w3 = (?up, ?w4)"
      by (simp only: prod_eq_iff fst_conv snd_conv is_server_running_fst is_server_running_snd h3)
    have "stop_server E w = (None, emit (Print (if ?up then MsgMayStillRun else MsgStopped)) ?w4)"
      using False by (simp add: stop_server_def found es(1) run del: terminate_all.simps One_nat_def)
    then show ?thesis
      using False
      by (simp add: trace_emit env_file_emit env_file_emits history_emit_Act history_emit_Print
          history_emits es(2) del: One_nat_def)
  qed
qed

theorem stop_server_spec_witness:
  "fst (find_node_processes env_live world0) = Inr [4242] \<and>
   history (snd (stop_server env_live world0)) =
     [ProcessIter, Terminate 4242, Sleep 1, HttpGet server_url 2] \<and>
   last (trace (snd (stop_server env_live world0))) = Print MsgMayStillRun"
proof -
  have found: "fst (find_node_processes env_live world0) = Inr [4242]"
    by (simp add: find_node_processes_eq env_live_def server_pids_table0)
  have h0: "history world0 = []"
    by (simp add: history_def world0_def)
  show ?thesis
    using found stop_server_spec [OF found]
    by (simp add: h0) (simp add: env_live_def)
qed

subsection \<open>Status\<close>

text \<open>
  C7, as stated, fails: when the probe answers false, \<^verbatim>\<open>check_status\<close> does not call
  \<^verbatim>\<open>find_node_processes\<close> and reports no identifier, although a matching process (here 4242)
  is in the table.
\<close>

theorem check_status_not_running_counterexample:
  "fst (find_node_processes env_down world0) = Inr [4242] \<and>
   \<not> fst (is_server_running env_down world0) \<and>
   snd (check_status env_down world0) =
     \<lparr>trace = [Print MsgChecking, Act (HttpGet server_url 2), Print MsgNotRunning, Print MsgStartItWith],
      env_file = None\<rparr> \<and>
   Print (MsgProcessIds [4242]) \<notin> set (trace (snd (check_status env_down world0)))"
proof -
  have down: "is_server_running env_down (emit (Print MsgChecking) world0) =
      (False, emit (Act (HttpGet server_url 2)) (emit (Print MsgChecking) world0))"
    by (simp add: is_server_running_def env_down_def)
  have "check_status env_down world0 =
      (None, emits [Print MsgNotRunning, Print MsgStartItWith]
               (emit (Act (HttpGet server_url 2)) (emit (Print MsgChecking) world0)))"
    by (simp add: check_status_def down)
  then have "snd (check_status env_down world0) =
     \<lparr>trace = [Print MsgChecking, Act (HttpGet server_url 2), Print MsgNotRunning, Print MsgStartItWith],
      env_file = None\<rparr>"
    by (simp add: emits_def emit_def world0_def)
  moreover have "fst (find_node_processes env_down world0) = Inr [4242]"
    by (simp add: find_node_processes_eq env_down_def server_pids_table0)
  moreover have "\<not> fst (is_server_running env_down world0)"
    by (simp add: is_server_running_def env_down_def)
  ultimately show ?thesis by simp
qed

text \<open>
  C7, amended. \<^verbatim>\<open>check_status\<close> never raises and always reports the answer of the liveness
  probe. When the probe answers true it scans the process table and, when the scan returns
  a non-empty list, reports these identifiers; when the probe answers false it performs no
  scan and reports no identifier.
\<close>

theorem check_status_spec:
  "fst (check_status E w) = None \<and>
   env_file (snd (check_status E w)) = env_file w \<and>
   (fst (is_server_running E w) \<longrightarrow>
      (\<forall>pids. fst (find_node_processes E (snd (is_server_running E w))) = Inr pids \<longrightarrow>
         snd (check_status E w) =
           emits ([Print MsgChecking, Act (HttpGet server_url 2), Print MsgServerRunning,
                   Print MsgAccessAt, Act ProcessIter]
                  @ (if pids \<noteq> [] then [Print (MsgProcessIds pids)] else [])) w)) \<and>
   (\<not> fst (is_server_running E w) \<longrightarrow>
      snd (check_status E w) =
        emits [Print MsgChecking, Act (HttpGet server_url 2), Print MsgNotRunning,
               Print MsgStartItWith] w)"
proof -
  let ?w0 = "emit (Print MsgChecking) w"
  let ?w1 = "emit (Act (HttpGet server_url 2)) ?w0"
  let ?up = "fst (is_server_running E w)"
  have up0: "fst (is_server_running E ?w0) = ?up"
    by (simp add: is_server_running_fst history_emit_Print)
  have run: "is_server_running E ?w0 = (?up, ?w1)"
    using is_server_running_eq [of E ?w0] by (simp only: up0)
  show ?thesis
  proof (cases ?up)
    case False
    then have "check_status E w = (None, emits [Print MsgNotRunning, Print MsgStartItWith] ?w1)"
      by (simp add: check_status_def run)
    then have "check_status E w =
        (None, emits [Print MsgChecking, Act (HttpGet server_url 2), Print MsgNotRunning,
               Print MsgStartItWith] w)"
      by (simp add: emit_as_emits emits_emits)
    with False show ?thesis by (simp add: env_file_emits)
  next
    case True
    let ?pids = "server_pids (process_iter E (history w @ [HttpGet server_url 2]))"
    let ?w2 = "emits [Print MsgServerRunning, Print MsgAccessAt] ?w1"
    have found: "find_node_processes E ?w2 = (Inr ?pids, emit (Act ProcessIter) ?w2)"
      by (simp add: find_node_processes_eq history_emits history_emit_Act history_emit_Print)
    let ?w3 = "emit (Act ProcessIter) ?w2"
    have "check_status E w =
        (None, if ?pids \<noteq> [] then emit (Print (MsgProcessIds ?pids)) ?w3 else ?w3)"
      using True by (simp add: check_status_def run found)
    then have eq: "check_status E w =
        (None, emits ([Print MsgChecking, Act (HttpGet server_url 2), Print MsgServerRunning,
                   Print MsgAccessAt, Act ProcessIter]
                  @ (if ?pids \<noteq> [] then [Print (MsgProcessIds ?pids)] else [])) w)"
      by (simp add: emit_as_emits emits_emits)
    have "fst (find_node_processes E (snd (is_server_running E w))) = Inr ?pids"
      by (simp add: find_node_processes_eq is_server_running_snd history_emit_Act)
    with True eq show ?thesis
      by (simp add: env_file_emits)
  qed
qed

theorem check_status_spec_witness:
  "fst (is_server_running env_live world0) \<and>
   snd (check_status env_live world0) =
     \<lparr>trace = [Print MsgChecking, Act (HttpGet server_url 2), Print MsgServerRunning,
               Print MsgAccessAt, Act ProcessIter, Print (MsgProcessIds [4242])],
      env_file = None\<rparr>"
proof -
  have live: "fst (is_server_running env_live world0)"
    by (simp add: is_server_running_def env_live_def)
  have found: "fst (find_node_processes env_live (snd (is_server_running env_live world0))) = Inr [4242]"
    by (simp add: find_node_processes_eq env_live_def server_pids_table0)
  show ?thesis
    using live found check_status_spec [of env_live world0]
    by (simp add: emits_def world0_def)
qed


subsection \<open>Command line\<close>

text \<open>
  C9, as stated, fails: the subcommand is lowered before it is looked up, so an input other
  than the five names, such as \<^verbatim>\<open>START\<close>, is dispatched to an operation and shows no help
  text.
\<close>

theorem main_uppercase_counterexample:
  "''START'' \<notin> set [''start'', ''stop'', ''restart'', ''status'', ''help''] \<and>
   main env_live [''manage.py'', ''START''] world0 = start_server env_live (print_header world0) \<and>
   Print MsgDoc \<notin> set (trace (snd (main env_live [''manage.py'', ''START''] world0))) \<and>
   Print MsgDoc \<in> set (trace (snd (show_help env_live (print_header world0))))"
proof -
  have lower: "str_lower ''START'' = ''start''"
    by (simp add: str_lower_def lower_char_def)
  have m: "main env_live [''manage.py'', ''START''] world0 = start_server env_live (print_header world0)"
    by (simp add: main_def lower commands_def)
  have live: "fst (is_server_running env_live (print_header world0))"
    by (simp add: is_server_running_def env_live_def)
  have s: "trace (snd (start_server env_live (print_header world0))) =
     [Print MsgHeaderTop, Print MsgHeaderTitle, Print MsgHeaderBottom,
      Print MsgStarting, Act (HttpGet server_url 2), Print MsgAlreadyRunning, Print MsgAccessItAt]"
    using start_server_running_eq [OF live]
    by (simp add: print_header_def emits_def world0_def)
  show ?thesis
    by (simp add: m s show_help_def trace_emits)
qed

text \<open>
  C9, amended. After its header, \<^verbatim>\<open>main\<close> shows the help text when no subcommand is given.
  Otherwise it lowers the first argument: when that is \<^verbatim>\<open>start\<close>, \<^verbatim>\<open>stop\<close>, \<^verbatim>\<open>restart\<close>,
  \<^verbatim>\<open>status\<close> or \<^verbatim>\<open>help\<close> it runs the respective operation, and when it is anything else it
  prints a notice of the unknown command and then the help text.
\<close>

theorem main_dispatch:
  "(length argv < 2 \<longrightarrow> main E argv w = show_help E (print_header w)) \<and>
   (2 \<le> length argv \<longrightarrow>
      (str_lower (argv ! 1) = ''start'' \<longrightarrow> main E argv w = start_server E (print_header w)) \<and>
      (str_lower (argv ! 1) = ''stop'' \<longrightarrow> main E argv w = stop_server E (print_header w)) \<and>
      (str_lower (argv ! 1) = ''restart'' \<longrightarrow> main E argv w = restart_server E (print_header w)) \<and>
      (str_lower (argv ! 1) = ''status'' \<longrightarrow> main E argv w = check_status E (print_header w)) \<and>
      (str_lower (argv ! 1) = ''help'' \<longrightarrow> main E argv w = show_help E (print_header w)) \<and>
      (str_lower (argv ! 1) \<notin> set [''start'', ''stop'', ''restart'', ''status'', ''help''] \<longrightarrow>
         main E argv w =
           show_help E (emit (Print (MsgUnknownCommand (str_lower (argv ! 1)))) (print_header w))))"
  by (simp add: main_def commands_def Let_def)

theorem main_dispatch_witness:
  "main env_live [''manage.py'', ''Status''] world0 = check_status env_live (print_header world0) \<and>
   main env_live [''manage.py'', ''launch''] world0 =
     show_help env_live (emit (Print (MsgUnknownCommand ''launch'')) (print_header world0)) \<and>
   main env_live [''manage.py''] world0 = show_help env_live (print_header world0)"
proof -
  have l1: "str_lower ''Status'' = ''status''" and l2: "str_lower ''launch'' = ''launch''"
    by (simp_all add: str_lower_def lower_char_def)
  show ?thesis
    using main_dispatch [of "[''manage.py'', ''Status'']" env_live world0]
      main_dispatch [of "[''manage.py'', ''launch'']" env_live world0]
      main_dispatch [of "[''manage.py'']" env_live world0]
    by (simp add: l1 l2)
qed





subsection \<open>The configuration file\<close>




subsection \<open>Restart\<close>

text \<open>
  C6, as stated, fails: the terminal output of \<^verbatim>\<open>restart_server\<close> is not the output of
  \<^verbatim>\<open>stop_server\<close>, a pause of 2 seconds and \<^verbatim>\<open>start_server\<close>: it has a banner before the
  stop phase and an empty line before the start phase.
\<close>

theorem restart_server_output_counterexample:
  "snd (restart_spec env_live world0) =
     \<lparr>trace = [Print MsgStopping, Act ProcessIter, Act (Terminate 4242),
               Print (MsgStoppedProcess 4242), Act (Sleep 1), Act (HttpGet server_url 2),
               Print MsgMayStillRun,
               Act (Sleep 2),
               Print MsgStarting, Act (HttpGet server_url 2), Print MsgAlreadyRunning,
               Print MsgAccessItAt],
      env_file = None\<rparr> \<and>
   snd (restart_server env_live world0) =
     \<lparr>trace = [Print MsgRestarting,
               Print MsgStopping, Act ProcessIter, Act (Terminate 4242),
               Print (MsgStoppedProcess 4242), Act (Sleep 1), Act (HttpGet server_url 2),
               Print MsgMayStillRun,
               Act (Sleep 2), Print MsgBlank,
               Print MsgStarting, Act (HttpGet server_url 2), Print MsgAlreadyRunning,
               Print MsgAccessItAt],
      env_file = None\<rparr> \<and>
   restart_server env_live world0 \<noteq> restart_spec env_live world0"
proof -
  have spec: "snd (restart_spec env_live world0) =
     \<lparr>trace = [Print MsgStopping, Act ProcessIter, Act (Terminate 4242),
               Print (MsgStoppedProcess 4242), Act (Sleep 1), Act (HttpGet server_url 2),
               Print MsgMayStillRun,
               Act (Sleep 2),
               Print MsgStarting, Act (HttpGet server_url 2), Print MsgAlreadyRunning,
               Print MsgAccessItAt],
      env_file = None\<rparr>"
    by (simp add: restart_spec_unfold stop_server_env_live start_server_env_live
        emits_def emit_def world0_def del: One_nat_def)
  have code: "snd (restart_server env_live world0) =
     \<lparr>trace = [Print MsgRestarting,
               Print MsgStopping, Act ProcessIter, Act (Terminate 4242),
               Print (MsgStoppedProcess 4242), Act (Sleep 1), Act (HttpGet server_url 2),
               Print MsgMayStillRun,
               Act (Sleep 2), Print MsgBlank,
               Print MsgStarting, Act (HttpGet server_url 2), Print MsgAlreadyRunning,
               Print MsgAccessItAt],
      env_file = None\<rparr>"
    by (simp add: restart_server_unfold stop_server_env_live start_server_env_live
        emits_def emit_def world0_def del: One_nat_def)
  have "snd (restart_server env_live world0) \<noteq> snd (restart_spec env_live world0)"
    unfolding spec code by simp
  then have "restart_server env_live world0 \<noteq> restart_spec env_live world0"
    by auto
  with spec code show ?thesis by simp
qed

text \<open>
  C6, amended. \<^verbatim>\<open>restart_server\<close> returns the same, performs the same actions in the same
  order, and leaves the same \<^verbatim>\<open>.env\<close> as \<^verbatim>\<open>stop_server\<close>, then a sleep of 2 seconds, then
  \<^verbatim>\<open>start_server\<close>, the start phase taking nothing from the stop phase but the world it left.
  Its terminal output is the output of that composition with two lines added: its banner
  before the stop phase, and an empty line between the pause and the start phase.
\<close>

theorem restart_server_refines:
  "fst (restart_server E w) = fst (restart_spec E w) \<and>
   history (snd (restart_server E w)) = history (snd (restart_spec E w)) \<and>
   env_file (snd (restart_server E w)) = env_file (snd (restart_spec E w)) \<and>
   (\<exists>es_stop es_start.
      trace (snd (stop_server E w)) = trace w @ es_stop \<and>
      trace (snd (restart_spec E w)) = trace w @ es_stop @ [Act (Sleep 2)] @ es_start \<and>
      trace (snd (restart_server E w)) =
        trace w @ [Print MsgRestarting] @ es_stop @ [Act (Sleep 2), Print MsgBlank] @ es_start)"
proof -
  let ?w0 = "emit (Print MsgRestarting) w"
  let ?w1 = "snd (stop_server E ?w0)" and ?v1 = "snd (stop_server E w)"
  let ?w3 = "emit (Print MsgBlank) (emit (Act (Sleep 2)) ?w1)" and ?v3 = "emit (Act (Sleep 2)) ?v1"
  have a0: "agree ?w0 w"
    by (simp add: agree_def history_emit_Print env_file_emit)
  have r1: "same_run ?w0 w (stop_server E ?w0) (stop_server E w)"
    using a0 by (rule stop_server_run)
  then obtain es1 where es1: "trace ?w1 = trace ?w0 @ es1" "trace ?v1 = trace w @ es1"
    by (auto simp: same_run_def same_step_def)
  have a1: "agree ?w1 ?v1"
    using a0 r1 by (rule same_run_agree)
  have a3: "agree ?w3 ?v3"
    using a1 by (simp add: agree_def history_emit_Print history_emit_Act env_file_emit)
  have r3: "same_run ?w3 ?v3 (start_server E ?w3) (start_server E ?v3)"
    using a3 by (rule start_server_run)
  then obtain es2 where es2: "trace (snd (start_server E ?w3)) = trace ?w3 @ es2"
      "trace (snd (start_server E ?v3)) = trace ?v3 @ es2"
    by (auto simp: same_run_def same_step_def)
  have a4: "agree (snd (start_server E ?w3)) (snd (start_server E ?v3))"
    using a3 r3 by (rule same_run_agree)
  have t1: "trace (snd (restart_spec E w)) = trace w @ es1 @ [Act (Sleep 2)] @ es2"
    by (simp add: restart_spec_unfold es2(2) trace_emit es1(2))
  have t2: "trace (snd (restart_server E w)) =
        trace w @ [Print MsgRestarting] @ es1 @ [Act (Sleep 2), Print MsgBlank] @ es2"
    by (simp add: restart_server_unfold es2(1) trace_emit es1(1))
  have "fst (restart_server E w) = fst (restart_spec E w)"
    using same_run_fst [OF r3] by (simp add: restart_server_unfold restart_spec_unfold)
  moreover have "history (snd (restart_server E w)) = history (snd (restart_spec E w))"
    using agree_history [OF a4] by (simp add: restart_server_unfold restart_spec_unfold)
  moreover have "env_file (snd (restart_server E w)) = env_file (snd (restart_spec E w))"
    using agree_env_file [OF a4] by (simp add: restart_server_unfold restart_spec_unfold)
  ultimately show ?thesis
    using es1(2) t1 t2 by blast
qed

theorem restart_server_refines_witness:
  "history (snd (restart_server env_live world0)) =
     [ProcessIter, Terminate 4242, Sleep 1, HttpGet server_url 2, Sleep 2, HttpGet server_url 2] \<and>
   fst (restart_server env_live world0) = None"
proof -
  have h0: "history world0 = []"
    by (simp add: history_def world0_def)
  have found: "fst (find_node_processes env_live world0) = Inr [4242]"
    by (simp add: find_node_processes_eq env_live_def server_pids_table0)
  have hs: "history (snd (stop_server env_live world0)) =
      [ProcessIter, Terminate 4242, Sleep 1, HttpGet server_url 2]"
    using stop_server_history [OF found] by (simp add: h0)
  let ?v3 = "emit (Act (Sleep 2)) (snd (stop_server env_live world0))"
  have live: "fst (is_server_running env_live ?v3)"
    by (simp add: is_server_running_fst env_live_def)
  have "restart_spec env_live world0 =
      (None, emits [Print MsgStarting, Act (HttpGet server_url 2),
                    Print MsgAlreadyRunning, Print MsgAccessItAt] ?v3)"
    unfolding restart_spec_unfold by (rule start_server_running_eq [OF live])
  then have "fst (restart_spec env_live world0) = None"
    "history (snd (restart_spec env_live world0)) =
       [ProcessIter, Terminate 4242, Sleep 1, HttpGet server_url 2, Sleep 2, HttpGet server_url 2]"
    by (simp_all add: history_emits history_emit_Act hs)
  then show ?thesis
    using restart_server_refines [of env_live world0] by simp
qed


subsection \<open>Start of a server that is not running\<close>

text \<open>
  C2, as stated, fails: in a state where \<^verbatim>\<open>is_server_running\<close> returns false and Node.js is
  not installed, \<^verbatim>\<open>start_server\<close> returns after the failed check and launches nothing.
\<close>

theorem start_server_node_missing_counterexample:
  "\<not> fst (is_server_running env_down world0) \<and>
   start_server env_down world0 =
     (None, \<lparr>trace = [Print MsgStarting, Act (HttpGet server_url 2), Act RunNodeVersion,
                       Print MsgNodeMissing],
             env_file = None\<rparr>) \<and>
   filter is_popen (history (snd (start_server env_down world0))) = []"
proof -
  have eq: "start_server env_down world0 =
     (None, \<lparr>trace = [Print MsgStarting, Act (HttpGet server_url 2), Act RunNodeVersion,
                       Print MsgNodeMissing],
             env_file = None\<rparr>)"
    by (simp add: start_server_def is_server_running_def check_node_installed_def env_down_def
        history_def emit_def world0_def)
  have "\<not> fst (is_server_running env_down world0)"
    by (simp add: is_server_running_def env_down_def)
  then show ?thesis
    by (simp add: eq history_def)
qed

text \<open>
  C2, amended. In a state where \<^verbatim>\<open>is_server_running\<close> returns false, where the check for
  Node.js passes, and where none of the check of the dependencies, the check of \<^verbatim>\<open>.env\<close> and
  the launch raises, \<^verbatim>\<open>start_server\<close> returns normally and launches the server exactly once,
  in the form of the platform. After the launch it polls in rounds of a sleep of 1 second
  and one probe: when round \<open>k\<close> (of the 10 rounds, counted from 0) is the first to answer
  true, it runs \<open>k + 1\<close> rounds and then reports success; when none of the 10 rounds answers
  true it runs all 10 and then reports failure.
\<close>

theorem start_server_launch_and_poll:
  assumes down: "\<not> fst (is_server_running E w)"
    and node: "check_node_installed E (emits [Print MsgStarting, Act (HttpGet server_url 2)] w) = (True, w2)"
    and deps: "check_dependencies E w2 = (None, w3)"
    and envf: "check_env_file E w3 = (Inr hv, w4)"
    and launched: "popen E (history w4) (launch_form E) = None"
  shows "fst (start_server E w) = None \<and>
    filter is_popen (history (snd (start_server E w))) =
      filter is_popen (history w) @ [Popen (launch_form E)] \<and>
    (\<forall>k<10. up_at E (history w4 @ [Popen (launch_form E)]) k \<and>
             (\<forall>j<k. \<not> up_at E (history w4 @ [Popen (launch_form E)]) j) \<longrightarrow>
       snd (start_server E w) =
         emits ([Act (Popen (launch_form E)), Print MsgWaiting]
                @ concat (replicate (Suc k) poll_round) @ started_report hv) w4) \<and>
    ((\<forall>j<10. \<not> up_at E (history w4 @ [Popen (launch_form E)]) j) \<longrightarrow>
       snd (start_server E w) =
         emits ([Act (Popen (launch_form E)), Print MsgWaiting]
                @ concat (replicate 10 poll_round) @ [Print MsgStartFailed]) w4)"
proof -
  let ?l = "launch_form E"
  let ?w0 = "emit (Print MsgStarting) w"
  let ?w1 = "emits [Print MsgStarting, Act (HttpGet server_url 2)] w"
  let ?w6 = "emits [Act (Popen ?l), Print MsgWaiting] w4"
  have "\<not> fst (is_server_running E ?w0)"
    using down by (simp add: is_server_running_fst history_emit_Print)
  then have run: "is_server_running E ?w0 = (False, emit (Act (HttpGet server_url 2)) ?w0)"
    by (simp add: prod_eq_iff is_server_running_snd)
  have node': "check_node_installed E (emit (Act (HttpGet server_url 2)) ?w0) = (True, w2)"
    using node by (simp add: emit_as_emits emits_emits)
  have "start_server E w =
      (None, wait_for_server E hv 10 (emit (Print MsgWaiting) (emit (Act (Popen ?l)) w4)))"
    by (simp add: start_server_def run node' deps envf launched)
  then have eq: "start_server E w = (None, wait_for_server E hv 10 ?w6)"
    by (simp add: emit_as_emits emits_emits)
  have h6: "history ?w6 = history w4 @ [Popen ?l]"
    by (simp add: history_emits)
  have "filter is_popen (history w4) = filter is_popen (history w)"
    using check_node_installed_popen [of E ?w1] check_dependencies_popen [of E w2]
      check_env_file_popen [of E w3]
    by (simp add: node deps envf history_emits)
  then have count: "filter is_popen (history (snd (start_server E w))) =
      filter is_popen (history w) @ [Popen ?l]"
    by (simp add: eq wait_for_server_popen h6)
  have ok: "snd (start_server E w) =
         emits ([Act (Popen ?l), Print MsgWaiting]
                @ concat (replicate (Suc k) poll_round) @ started_report hv) w4"
    if "k < 10" "up_at E (history w4 @ [Popen ?l]) k" "\<forall>j<k. \<not> up_at E (history w4 @ [Popen ?l]) j"
    for k
    using wait_for_server_started [of k 10 E ?w6 hv] that
    by (simp add: eq h6 emits_emits del: replicate.simps)
  have failed: "snd (start_server E w) =
         emits ([Act (Popen ?l), Print MsgWaiting]
                @ concat (replicate 10 poll_round) @ [Print MsgStartFailed]) w4"
    if "\<forall>j<10. \<not> up_at E (history w4 @ [Popen ?l]) j"
    using wait_for_server_failed [of 10 E ?w6 hv] that
    by (simp add: eq h6 emits_emits)
  show ?thesis
    using count ok failed by (simp add: eq)
qed


theorem start_server_launch_and_poll_witness:
  "\<not> fst (is_server_running env_boot world0) \<and>
   fst (start_server env_boot world0) = None \<and>
   filter is_popen (history (snd (start_server env_boot world0))) = [Popen NpmStartBackground] \<and>
   snd (start_server env_boot world0) =
     \<lparr>trace =
        [Print MsgStarting, Act (HttpGet server_url 2),
         Act RunNodeVersion, Print (MsgNodeInstalled ''v18.0.0''),
         Act NodeModulesExists, Print MsgDepsPresent,
         Act EnvExists, Print MsgEnvNotFound, Print MsgCreatingEnv, Act (WriteEnv template_content),
         Print MsgPleaseUpdateEnv, Print MsgClaudeKeyHint, Print MsgPerplexityKeyHint,
         Act (Popen NpmStartBackground), Print MsgWaiting,
         Act (Sleep 1), Act (HttpGet server_url 2),
         Act (Sleep 1), Act (HttpGet server_url 2),
         Act (Sleep 1), Act (HttpGet server_url 2),
         Print MsgStarted, Print MsgAccessApp, Print MsgRememberKeys,
         Print MsgFeatures, Print (MsgFeature 1), Print (MsgFeature 2), Print (MsgFeature 3),
         Print (MsgFeature 4), Print (MsgFeature 5)],
      env_file = Some template_content\<rparr>"
proof -
  let ?w1 = "emits [Print MsgStarting, Act (HttpGet server_url 2)] world0"
  let ?w2 = "emits [Act RunNodeVersion, Print (MsgNodeInstalled ''v18.0.0'')] ?w1"
  let ?w3 = "emits [Act NodeModulesExists, Print MsgDepsPresent] ?w2"
  let ?w4 = "\<lparr>trace =
        [Print MsgStarting, Act (HttpGet server_url 2),
         Act RunNodeVersion, Print (MsgNodeInstalled ''v18.0.0''),
         Act NodeModulesExists, Print MsgDepsPresent,
         Act EnvExists, Print MsgEnvNotFound, Print MsgCreatingEnv, Act (WriteEnv template_content),
         Print MsgPleaseUpdateEnv, Print MsgClaudeKeyHint, Print MsgPerplexityKeyHint],
      env_file = Some template_content\<rparr>"
  let ?h = "history ?w4 @ [Popen (launch_form env_boot)]"
  have l: "launch_form env_boot = NpmStartBackground"
    by (simp add: launch_form_def env_boot_def)
  have down: "\<not> fst (is_server_running env_boot world0)"
    by (simp add: is_server_running_def env_boot_def history_def world0_def)
  have node: "check_node_installed env_boot ?w1 = (True, ?w2)"
    by (simp add: check_node_installed_def env_boot_def str_strip_def is_space_def
        emit_as_emits emits_emits)
  have deps: "check_dependencies env_boot ?w2 = (None, ?w3)"
    by (simp add: check_dependencies_def env_boot_def emit_as_emits emits_emits)
  have envf: "check_env_file env_boot ?w3 = (Inr False, ?w4)"
    by (simp add: check_env_file_def env_boot_def emit_def emits_def world0_def)
  have launched: "popen env_boot (history ?w4) (launch_form env_boot) = None"
    by (simp add: env_boot_def)
  have h: "?h = [HttpGet server_url 2, RunNodeVersion, NodeModulesExists, EnvExists,
                 WriteEnv template_content, Popen NpmStartBackground]"
    by (simp add: history_def l)
  have u0: "\<not> up_at env_boot ?h 0"
    unfolding h by (simp add: up_at_def env_boot_def)
  have u1: "\<not> up_at env_boot ?h 1"
    unfolding h by (simp add: up_at_def env_boot_def)
  have u2: "up_at env_boot ?h 2"
    unfolding h by (simp add: up_at_def env_boot_def numeral_2_eq_2)
  have before: "\<forall>j<2. \<not> up_at env_boot ?h j"
    using u0 u1 by (auto simp: less_2_cases_iff)
  have "\<forall>k<10. up_at env_boot ?h k \<and> (\<forall>j<k. \<not> up_at env_boot ?h j) \<longrightarrow>
       snd (start_server env_boot world0) =
         emits ([Act (Popen (launch_form env_boot)), Print MsgWaiting]
                @ concat (replicate (Suc k) poll_round) @ started_report False) ?w4"
    using start_server_launch_and_poll [OF down node deps envf launched] by blast
  moreover have "(2::nat) < 10"
    by simp
  ultimately have "snd (start_server env_boot world0) =
         emits ([Act (Popen (launch_form env_boot)), Print MsgWaiting]
                @ concat (replicate (Suc 2) poll_round) @ started_report False) ?w4"
    using u2 before by blast
  then have "snd (start_server env_boot world0) = \<lparr>trace =
        [Print MsgStarting, Act (HttpGet server_url 2),
         Act RunNodeVersion, Print (MsgNodeInstalled ''v18.0.0''),
         Act NodeModulesExists, Print MsgDepsPresent,
         Act EnvExists, Print MsgEnvNotFound, Print MsgCreatingEnv, Act (WriteEnv template_content),
         Print MsgPleaseUpdateEnv, Print MsgClaudeKeyHint, Print MsgPerplexityKeyHint,
         Act (Popen NpmStartBackground), Print MsgWaiting,
         Act (Sleep 1), Act (HttpGet server_url 2),
         Act (Sleep 1), Act (HttpGet server_url 2),
         Act (Sleep 1), Act (HttpGet server_url 2),
         Print MsgStarted, Print MsgAccessApp, Print MsgRememberKeys,
         Print MsgFeatures, Print (MsgFeature 1), Print (MsgFeature 2), Print (MsgFeature 3),
         Print (MsgFeature 4), Print (MsgFeature 5)],
      env_file = Some template_content\<rparr>"
    by (simp add: l emits_def poll_round_def started_report_def numeral_2_eq_2)
  moreover have "fst (start_server env_boot world0) = None"
    "filter is_popen (history (snd (start_server env_boot world0))) = [Popen NpmStartBackground]"
    using start_server_launch_and_poll [OF down node deps envf launched]
    by (simp_all add: l history_def world0_def)
  ultimately show ?thesis
    using down by simp
qed



end
